theory Spec2Isabelle
  imports Complex_Main "HOL-Library.Word" "HOL-Library.AList"
begin

unbundle bit_operations_syntax

section \<open>Compact sub-entity identities (GPUPicker)\<close>

text \<open>
  \<^verbatim>\<open>GPUPicker.compactTopologyId\<close> and \<^verbatim>\<open>GPUPicker.extract\<close> work on JavaScript numbers with
  the bitwise operators \<^verbatim>\<open><<\<close>, \<^verbatim>\<open>>>\<close>, \<^verbatim>\<open>&\<close> and \<^verbatim>\<open>|\<close>. Each of these converts its operands to
  32-bit two's complement integers (ToInt32) and yields a signed 32-bit result. The model
  takes integer-valued numbers as \<open>int\<close>, converts with \<open>ToInt32\<close> into \<open>32 word\<close>, and reads
  a result back with \<open>sint\<close>. \<^verbatim>\<open>>>\<close> is the arithmetic shift \<open>signed_drop_bit\<close>, \<^verbatim>\<open><<\<close> is
  \<open>push_bit\<close>. The comparisons \<^verbatim>\<open>parentId > (1 << 16)\<close> and \<^verbatim>\<open>index > (1 << 15)\<close> are comparisons
  of numbers and are made on \<open>int\<close>.
\<close>

datatype topo_kind = Edge | Face

datatype picker_error = PreconditionFailure

definition ToInt32 :: "int \<Rightarrow> 32 word" where
  "ToInt32 n = word_of_int n"

definition compactTopologyId :: "topo_kind \<Rightarrow> int \<Rightarrow> int \<Rightarrow> picker_error + int" where
  "compactTopologyId type parentId index =
     (if parentId > sint (push_bit 16 (1 :: 32 word)) then Inl PreconditionFailure
      else if index > sint (push_bit 15 (1 :: 32 word)) then Inl PreconditionFailure
      else
        let parentId' = push_bit 16 (ToInt32 parentId);
            c = push_bit 7 (if type = Edge then 0 else 1 :: 32 word);
            d = c OR (signed_drop_bit 8 (ToInt32 index) AND 0xef);
            e = signed_drop_bit 0 (ToInt32 index) AND 255;
            id = parentId' OR push_bit 8 d OR e
        in Inr (sint id))"

record extracted =
  parentId :: int
  type :: int
  index :: int

definition "extract" :: "int \<Rightarrow> extracted" where
  "extract compact0 =
     (let parentId = signed_drop_bit 16 (ToInt32 compact0);
          compact1 = ToInt32 compact0 AND 0xffff;
          type = signed_drop_bit 15 compact1;
          compact2 = compact1 AND 0x7fff;
          index = compact2
      in \<lparr> parentId = sint parentId, type = sint type, index = sint index \<rparr>)"

text \<open>The number that stands for a kind: \<^verbatim>\<open>type === 'edge' ? 0 : 1\<close> when encoding,
  \<^verbatim>\<open>type === 0\<close> for an edge in \<^verbatim>\<open>compact2full\<close>.\<close>

definition kind_code :: "topo_kind \<Rightarrow> int" where
  "kind_code k = (if k = Edge then 0 else 1)"

text \<open>Decoding what encoding returned; an encoding error is passed on.\<close>

definition extract_compactTopologyId :: "topo_kind \<Rightarrow> int \<Rightarrow> int \<Rightarrow> picker_error + extracted" where
  "extract_compactTopologyId k p i = map_sum id extract (compactTopologyId k p i)"

section \<open>The kernel boundary (c3d)\<close>

text \<open>
  The geometry kernel is outside the repository. A kernel item is taken as a parameter: a
  record of what the store asks of it. \<open>IsA\<close> is the item's kind, \<open>CreateMesh_async\<close> the
  tessellation at a given precision (it may reject, which is the \<open>Inl\<close> branch),
  \<open>GetFace\<close> and \<open>FindEdgeByName\<close> resolve a topology handle (\<open>None\<close> is the null result).
  The class test \<^verbatim>\<open>parent instanceof c3d.Solid\<close> is read as \<open>IsA parent = c3d_Solid\<close>.
\<close>

type_synonym SimpleName = int

type_synonym topo_id = "topo_kind \<times> SimpleName \<times> int"

datatype error =
    InvalidPrecondition
  | TypeNotYetSupported
  | MissingFromGeometryModel SimpleName
  | MissingFromTopologyModel topo_id
  | KernelFailure

datatype c3d_SpaceType = c3d_SpaceInstance | c3d_PlaneInstance | c3d_Solid | c3d_OtherType

type_synonym c3d_TopologyItem = nat

record c3d_EdgeBuffer =
  edge_name :: int
  edge_i :: int
  edge_position :: "int list"

record c3d_MeshBuffer =
  grid_i :: int
  grid_position :: "int list"

record c3d_Mesh =
  GetEdges :: "c3d_EdgeBuffer list"
  GetOutlineEdges :: "c3d_EdgeBuffer list"
  GetBuffers :: "c3d_MeshBuffer list"
  IsClosed :: bool

record c3d_Item =
  IsA :: c3d_SpaceType
  CreateMesh_async :: "real \<Rightarrow> error + c3d_Mesh"
  GetFace :: "int \<Rightarrow> c3d_TopologyItem option"
  FindEdgeByName :: "int \<Rightarrow> c3d_TopologyItem option"

section \<open>The renderable views (VisualModel)\<close>

text \<open>
  Modelled from the spec: the view classes of \<^verbatim>\<open>VisualModel\<close> (\<^verbatim>\<open>visual.Item\<close>, its builders,
  \<^verbatim>\<open>visual.Face\<close>, \<^verbatim>\<open>visual.CurveEdge\<close>) are not among the sources. A view is a level-of-detail
  tree: a curve level holds line segments, a region level exactly one polygon buffer, a
  solid level an edge group and a face group (spec 4.2). A face view is built from a
  polygon buffer and the parent's identity, an edge view from an edge polyline and the
  parent's identity. The identity of a sub-entity (\<^verbatim>\<open>simpleName\<close>, a string in the code) is
  derived from parent identity, kind and local index (spec 3 and 4.1) and is modelled as
  that triple. Materials are appearance only and are left out.
\<close>

text \<open>Modelled from the spec: \<^verbatim>\<open>visual.Face\<close> and \<^verbatim>\<open>visual.CurveEdge\<close> (missing), the views of
  the sub-entities of a solid, each with its parent's identity and the buffer it shows.\<close>

datatype visual_TopologyItem =
    visual_Face SimpleName c3d_MeshBuffer
  | visual_CurveEdge SimpleName c3d_EdgeBuffer

text \<open>Modelled from the spec: the getter \<^verbatim>\<open>simpleName\<close> of a topology item (missing), the
  derived identity "parent identity + kind + local index" of spec 3.\<close>

fun TopologyItem_simpleName :: "visual_TopologyItem \<Rightarrow> topo_id" where
  "TopologyItem_simpleName (visual_Face p grid) = (Face, p, grid_i grid)"
| "TopologyItem_simpleName (visual_CurveEdge p edge) = (Edge, p, edge_i edge)"

text \<open>Modelled from the spec: \<^verbatim>\<open>Face.build(grid, id, material)\<close> and
  \<^verbatim>\<open>CurveEdge.build(edge, id, material, occluded)\<close> (missing), which build the view of one
  polygon buffer or edge polyline under the parent identity \<open>id\<close>.\<close>

definition Face_build :: "c3d_MeshBuffer \<Rightarrow> SimpleName \<Rightarrow> visual_TopologyItem" where
  "Face_build grid parent = visual_Face parent grid"

definition CurveEdge_build :: "c3d_EdgeBuffer \<Rightarrow> SimpleName \<Rightarrow> visual_TopologyItem" where
  "CurveEdge_build edge parent = visual_CurveEdge parent edge"

text \<open>Modelled from the spec: one level of detail of a view and the class of a view
  (\<^verbatim>\<open>visual.SpaceInstance\<close>, \<^verbatim>\<open>visual.PlaneInstance\<close>, \<^verbatim>\<open>visual.Solid\<close>, all missing); the
  number is the viewing distance of the level.\<close>

datatype visual_Level =
    Curve3D_Level "c3d_EdgeBuffer list" real
  | Region_Level c3d_MeshBuffer real
  | Solid_Level "visual_TopologyItem list" "visual_TopologyItem list" real

datatype visual_class = visual_SpaceInstance | visual_PlaneInstance | visual_Solid

record visual_Item =
  klass :: visual_class
  simpleName :: SimpleName
  lod :: "visual_Level list"

text \<open>Modelled from the spec: the builders \<^verbatim>\<open>SpaceInstanceBuilder\<close>, \<^verbatim>\<open>PlaneInstanceBuilder\<close>
  and \<^verbatim>\<open>SolidBuilder\<close> (missing). A builder collects levels in the order in which they are
  added (spec 4.2); \<open>build\<close> hands out the view, whose \<^verbatim>\<open>userData.simpleName\<close> is then set
  by \<^verbatim>\<open>meshes\<close>.\<close>

datatype Builder = Builder visual_class "visual_Level list"

fun addLOD :: "Builder \<Rightarrow> visual_Level \<Rightarrow> Builder" where
  "addLOD (Builder k ls) l = Builder k (ls @ [l])"

fun build :: "Builder \<Rightarrow> visual_Item" where
  "build (Builder k ls) = \<lparr> klass = k, simpleName = 0, lod = ls \<rparr>"

text \<open>Modelled from the spec: \<^verbatim>\<open>traverse\<close> of a view (missing). It visits the view and all
  its descendants once; what the store looks for among them are the topology items
  (faces and edges), level by level, the edge group of a level before its face group.\<close>

fun Level_topology :: "visual_Level \<Rightarrow> visual_TopologyItem list" where
  "Level_topology (Solid_Level edges faces d) = edges @ faces"
| "Level_topology (Curve3D_Level segments d) = []"
| "Level_topology (Region_Level region d) = []"

definition traverse_TopologyItems :: "visual_Item \<Rightarrow> visual_TopologyItem list" where
  "traverse_TopologyItems v = concat (map Level_topology (lod v))"

section \<open>The mesh builder (GeometryDatabase.meshes, object2mesh)\<close>

definition precision_distance :: "(real \<times> real) list" where
  "precision_distance = [(0.1, 50), (0.001, 5), (0.0001, 0.5)]"

definition object2mesh ::
  "Builder \<Rightarrow> c3d_Item \<Rightarrow> SimpleName \<Rightarrow> real \<Rightarrow> real \<Rightarrow> error + Builder" where
  "object2mesh builder obj ident sag distance =
     (case CreateMesh_async obj sag of
        Inl e \<Rightarrow> Inl e
      | Inr mesh \<Rightarrow>
         (case IsA obj of
            c3d_SpaceInstance \<Rightarrow>
              Inr (addLOD builder (Curve3D_Level (GetEdges mesh) distance))
          | c3d_PlaneInstance \<Rightarrow>
              (let grids = GetBuffers mesh in
               if length grids \<noteq> 1 then Inl InvalidPrecondition
               else Inr (addLOD builder (Region_Level (grids ! 0) distance)))
          | c3d_Solid \<Rightarrow>
              (let edges = map (\<lambda>edge. CurveEdge_build edge ident) (GetOutlineEdges mesh);
                   faces = map (\<lambda>grid. Face_build grid ident) (GetBuffers mesh)
               in Inr (addLOD builder (Solid_Level edges faces distance)))
          | c3d_OtherType \<Rightarrow> Inl TypeNotYetSupported))"

fun object2mesh_all ::
  "Builder \<Rightarrow> c3d_Item \<Rightarrow> SimpleName \<Rightarrow> (real \<times> real) list \<Rightarrow> error + Builder" where
  "object2mesh_all builder obj ident [] = Inr builder"
| "object2mesh_all builder obj ident ((precision, distance) # rest) =
     (case object2mesh builder obj ident precision distance of
        Inl e \<Rightarrow> Inl e
      | Inr builder' \<Rightarrow> object2mesh_all builder' obj ident rest)"

definition meshes :: "c3d_Item \<Rightarrow> SimpleName \<Rightarrow> (real \<times> real) list \<Rightarrow> error + visual_Item" where
  "meshes obj ident levels =
     (case (case IsA obj of
              c3d_SpaceInstance \<Rightarrow> Inr (Builder visual_SpaceInstance [])
            | c3d_PlaneInstance \<Rightarrow> Inr (Builder visual_PlaneInstance [])
            | c3d_Solid \<Rightarrow> Inr (Builder visual_Solid [])
            | c3d_OtherType \<Rightarrow> Inl TypeNotYetSupported) of
        Inl e \<Rightarrow> Inl e
      | Inr builder \<Rightarrow>
         (case object2mesh_all builder obj ident levels of
            Inl e \<Rightarrow> Inl e
          | Inr builder' \<Rightarrow> Inr ((build builder')\<lparr> simpleName := ident \<rparr>)))"

section \<open>The geometry store (GeometryDatabase)\<close>

text \<open>
  The store holds its three collections by reference: \<^verbatim>\<open>saveToMemento\<close> copies them into new
  objects and \<^verbatim>\<open>restoreFromMemento\<close> reassigns the store's fields, so which object a field
  points to matters. The model has an explicit heap, one address space per kind of object:
  \<open>ItemMaps\<close> for the \<^verbatim>\<open>Map<SimpleName, {view, model}>\<close> objects, \<open>TopologyMaps\<close> for the
  \<^verbatim>\<open>Map<string, TopologyData>\<close> objects, \<open>NameSets\<close> for the \<^verbatim>\<open>Set<SimpleName>\<close> objects and
  \<open>ViewSets\<close> for the \<^verbatim>\<open>Set<Face | Edge>\<close> objects; \<open>nextAddr\<close> is the next unused address.

  A JavaScript \<^verbatim>\<open>Map\<close> keeps insertion order: it is an association list, \<^verbatim>\<open>set\<close> is
  \<open>AList.update\<close> (replace in place, or append), \<^verbatim>\<open>delete\<close> is \<open>AList.delete\<close>, \<^verbatim>\<open>get\<close> is
  \<open>map_of\<close>. A \<^verbatim>\<open>TopologyData\<close> object is never assigned to after its creation, so it
  is a value that holds the address of its view set. The members of a view set are objects
  compared by identity; every view that \<^verbatim>\<open>addTopologyItem\<close> receives was just built and is
  visited once, so \<^verbatim>\<open>views.add(t)\<close> always adds a member, and the model appends.

  The \<^verbatim>\<open>async\<close> methods are modelled as one step each (the store is driven by a single
  logical writer), the change notifications are not modelled. A method returns its result,
  or the error it throws, together with the state it leaves behind.
\<close>

type_synonym addr = nat

record TopologyData =
  td_model :: "c3d_TopologyItem option"
  td_view :: addr

record GeometryMemento =
  memento_geometryModel :: addr
  memento_topologyModel :: addr
  memento_hidden :: addr

type_synonym ItemRecord = "visual_Item \<times> c3d_Item"

record GeometryDatabase =
  counter :: int
  geometryModel :: addr
  topologyModel :: addr
  hidden :: addr
  temporaryObjects :: "visual_Item list"
  ItemMaps :: "addr \<Rightarrow> (SimpleName \<times> ItemRecord) list"
  TopologyMaps :: "addr \<Rightarrow> (topo_id \<times> TopologyData) list"
  NameSets :: "addr \<Rightarrow> SimpleName set"
  ViewSets :: "addr \<Rightarrow> visual_TopologyItem list"
  nextAddr :: addr

record TemporaryObject =
  tmp_mesh :: visual_Item
  tmp_object :: c3d_Item

definition new_GeometryDatabase :: GeometryDatabase where
  "new_GeometryDatabase =
     \<lparr> counter = 0, geometryModel = 0, topologyModel = 1, hidden = 2,
       temporaryObjects = [],
       ItemMaps = (\<lambda>a. []), TopologyMaps = (\<lambda>a. []), NameSets = (\<lambda>a. {}),
       ViewSets = (\<lambda>a. []), nextAddr = 3 \<rparr>"

text \<open>The contents of the three collections the store currently points to.\<close>

definition the_geometryModel :: "GeometryDatabase \<Rightarrow> (SimpleName \<times> ItemRecord) list" where
  "the_geometryModel s = ItemMaps s (geometryModel s)"

definition the_topologyModel :: "GeometryDatabase \<Rightarrow> (topo_id \<times> TopologyData) list" where
  "the_topologyModel s = TopologyMaps s (topologyModel s)"

definition the_hidden :: "GeometryDatabase \<Rightarrow> SimpleName set" where
  "the_hidden s = NameSets s (hidden s)"

definition addTopologyItem ::
  "c3d_Item \<Rightarrow> visual_TopologyItem \<Rightarrow> GeometryDatabase \<Rightarrow> (error + unit) \<times> GeometryDatabase" where
  "addTopologyItem parent t s =
     (if IsA parent \<noteq> c3d_Solid then (Inl InvalidPrecondition, s)
      else
        (case map_of (the_topologyModel s) (TopologyItem_simpleName t) of
           None \<Rightarrow>
             (let mdl = (case t of
                           visual_Face p grid \<Rightarrow> GetFace parent (grid_i grid)
                         | visual_CurveEdge p edge \<Rightarrow> FindEdgeByName parent (edge_name edge));
                  views = nextAddr s;
                  topologyData = \<lparr> td_model = mdl, td_view = views \<rparr>
              in (Inr (),
                  s\<lparr> nextAddr := views + 1,
                     TopologyMaps := (TopologyMaps s)
                       (topologyModel s :=
                          AList.update (TopologyItem_simpleName t) topologyData
                            (the_topologyModel s)),
                     ViewSets := (ViewSets s)(views := [t]) \<rparr>))
         | Some topologyData \<Rightarrow>
             (let views = td_view topologyData
              in (Inr (), s\<lparr> ViewSets := (ViewSets s)(views := ViewSets s views @ [t]) \<rparr>))))"

fun addTopologyItems ::
  "c3d_Item \<Rightarrow> visual_TopologyItem list \<Rightarrow> GeometryDatabase \<Rightarrow> (error + unit) \<times> GeometryDatabase" where
  "addTopologyItems parent [] s = (Inr (), s)"
| "addTopologyItems parent (t # ts) s =
     (case addTopologyItem parent t s of
        (Inl e, s') \<Rightarrow> (Inl e, s')
      | (Inr u, s') \<Rightarrow> addTopologyItems parent ts s')"

text \<open>
  \<^verbatim>\<open>this.counter++\<close> on a JavaScript number. The counter starts at 0 and is only ever
  changed by this increment, so the values it takes are integers from 0 to \<open>2^53\<close>. Below
  \<open>2^53\<close> the sum with 1 is exact. At \<open>2^53\<close> the sum \<open>2^53 + 1\<close> is not a double and rounds
  (ties to even) back to \<open>2^53\<close>: the counter stays where it is.
\<close>

definition js_increment :: "int \<Rightarrow> int" where
  "js_increment n = (if n < 2 ^ 53 then n + 1 else n)"

definition addItem :: "c3d_Item \<Rightarrow> GeometryDatabase \<Rightarrow> (error + visual_Item) \<times> GeometryDatabase" where
  "addItem obj s =
     (let current = counter s;
          s0 = s\<lparr> counter := js_increment current \<rparr>
      in case meshes obj current precision_distance of
           Inl e \<Rightarrow> (Inl e, s0)
         | Inr v \<Rightarrow>
            (let s1 = s0\<lparr> ItemMaps := (ItemMaps s0)
                          (geometryModel s0 :=
                             AList.update current (v, obj) (the_geometryModel s0)) \<rparr>
             in if klass v = visual_Solid
                then (case addTopologyItems obj (traverse_TopologyItems v) s1 of
                        (Inl e, s2) \<Rightarrow> (Inl e, s2)
                      | (Inr u, s2) \<Rightarrow> (Inr v, s2))
                else (Inr v, s1)))"

definition addTemporaryItem ::
  "c3d_Item \<Rightarrow> GeometryDatabase \<Rightarrow> (error + TemporaryObject) \<times> GeometryDatabase" where
  "addTemporaryItem obj s =
     (case meshes obj (- 1) [(0.005, 1)] of
        Inl e \<Rightarrow> (Inl e, s)
      | Inr mesh \<Rightarrow>
          (Inr \<lparr> tmp_mesh = mesh, tmp_object = obj \<rparr>,
           s\<lparr> temporaryObjects := temporaryObjects s @ [mesh] \<rparr>))"

definition cancel :: "TemporaryObject \<Rightarrow> GeometryDatabase \<Rightarrow> (error + unit) \<times> GeometryDatabase" where
  "cancel tmp s = (Inr (), s\<lparr> temporaryObjects := remove1 (tmp_mesh tmp) (temporaryObjects s) \<rparr>)"

definition commit ::
  "TemporaryObject \<Rightarrow> GeometryDatabase \<Rightarrow> (error + visual_Item) \<times> GeometryDatabase" where
  "commit tmp s =
     addItem (tmp_object tmp)
       (s\<lparr> temporaryObjects := remove1 (tmp_mesh tmp) (temporaryObjects s) \<rparr>)"

definition removeTopologyItems :: "visual_Item \<Rightarrow> GeometryDatabase \<Rightarrow> GeometryDatabase" where
  "removeTopologyItems parent s =
     s\<lparr> TopologyMaps := (TopologyMaps s)
          (topologyModel s :=
             fold (\<lambda>o_item m. AList.delete (TopologyItem_simpleName o_item) m)
               (traverse_TopologyItems parent) (the_topologyModel s)) \<rparr>"

definition removeItem :: "visual_Item \<Rightarrow> GeometryDatabase \<Rightarrow> (error + unit) \<times> GeometryDatabase" where
  "removeItem object s =
     (let name = simpleName object;
          s1 = s\<lparr> ItemMaps := (ItemMaps s)
                      (geometryModel s := AList.delete name (the_geometryModel s)) \<rparr>;
          s2 = removeTopologyItems object s1;
          s3 = s2\<lparr> NameSets := (NameSets s2)(hidden s2 := the_hidden s2 - {name}) \<rparr>
      in (Inr (), s3))"

definition lookupItemById :: "SimpleName \<Rightarrow> GeometryDatabase \<Rightarrow> error + ItemRecord" where
  "lookupItemById ident s =
     (case map_of (the_geometryModel s) ident of
        None \<Rightarrow> Inl (MissingFromGeometryModel ident)
      | Some result \<Rightarrow> Inr result)"

definition lookupTopologyItemById :: "topo_id \<Rightarrow> GeometryDatabase \<Rightarrow> error + TopologyData" where
  "lookupTopologyItemById ident s =
     (case map_of (the_topologyModel s) ident of
        None \<Rightarrow> Inl (MissingFromTopologyModel ident)
      | Some result \<Rightarrow> Inr result)"

definition find_klass :: "visual_class \<Rightarrow> GeometryDatabase \<Rightarrow> visual_Item list" where
  "find_klass k s = filter (\<lambda>v. klass v = k) (map (\<lambda>(ident, r). fst r) (the_geometryModel s))"

definition visibleObjects :: "GeometryDatabase \<Rightarrow> visual_Item list" where
  "visibleObjects s =
     filter (\<lambda>v. simpleName v \<notin> the_hidden s) (map (\<lambda>(ident, r). fst r) (the_geometryModel s))"

definition hide :: "visual_Item \<Rightarrow> GeometryDatabase \<Rightarrow> (error + unit) \<times> GeometryDatabase" where
  "hide item s =
     (Inr (), s\<lparr> NameSets := (NameSets s)(hidden s := insert (simpleName item) (the_hidden s)) \<rparr>)"

definition unhide :: "visual_Item \<Rightarrow> GeometryDatabase \<Rightarrow> (error + unit) \<times> GeometryDatabase" where
  "unhide item s =
     (Inr (), s\<lparr> NameSets := (NameSets s)(hidden s := the_hidden s - {simpleName item}) \<rparr>)"

definition saveToMemento :: "GeometryDatabase \<Rightarrow> (error + GeometryMemento) \<times> GeometryDatabase" where
  "saveToMemento s =
     (let a = nextAddr s
      in (Inr \<lparr> memento_geometryModel = a, memento_topologyModel = a + 1,
                memento_hidden = a + 2 \<rparr>,
          s\<lparr> ItemMaps := (ItemMaps s)(a := the_geometryModel s),
             TopologyMaps := (TopologyMaps s)(a + 1 := the_topologyModel s),
             NameSets := (NameSets s)(a + 2 := the_hidden s),
             nextAddr := a + 3 \<rparr>))"

definition restoreFromMemento ::
  "GeometryMemento \<Rightarrow> GeometryDatabase \<Rightarrow> (error + unit) \<times> GeometryDatabase" where
  "restoreFromMemento m s =
     (Inr (),
      s\<lparr> geometryModel := memento_geometryModel m,
         topologyModel := memento_topologyModel m,
         hidden := memento_hidden m \<rparr>)"

section \<open>A client of the store\<close>

text \<open>
  The operations a caller can issue on one store instance. A caller can restore only a
  memento that \<^verbatim>\<open>saveToMemento\<close> returned to it, and cancel or commit only a temporary
  object that \<^verbatim>\<open>addTemporaryItem\<close> returned to it, so the session keeps both in the order
  in which they were handed out and the operations refer to them by position (an
  operation that names a position not yet handed out does nothing). \<open>identities\<close> records,
  in call order, the identity of the view returned by every successful \<^verbatim>\<open>addItem\<close>, whether
  called directly or through \<^verbatim>\<open>commit\<close>.
\<close>

datatype op =
    AddItem c3d_Item
  | AddTemporaryItem c3d_Item
  | Cancel nat
  | Commit nat
  | RemoveItem visual_Item
  | Hide visual_Item
  | Unhide visual_Item
  | SaveToMemento
  | RestoreFromMemento nat

record session =
  db :: GeometryDatabase
  mementos :: "GeometryMemento list"
  temporaries :: "TemporaryObject list"
  identities :: "SimpleName list"

definition new_session :: session where
  "new_session = \<lparr> db = new_GeometryDatabase, mementos = [], temporaries = [], identities = [] \<rparr>"

definition record_addItem :: "(error + visual_Item) \<times> GeometryDatabase \<Rightarrow> session \<Rightarrow> session" where
  "record_addItem r c =
     (case r of
        (Inl e, s') \<Rightarrow> c\<lparr> db := s' \<rparr>
      | (Inr v, s') \<Rightarrow> c\<lparr> db := s', identities := identities c @ [simpleName v] \<rparr>)"

fun step :: "op \<Rightarrow> session \<Rightarrow> session" where
  "step (AddItem obj) c = record_addItem (addItem obj (db c)) c"
| "step (AddTemporaryItem obj) c =
     (case addTemporaryItem obj (db c) of
        (Inl e, s') \<Rightarrow> c\<lparr> db := s' \<rparr>
      | (Inr tmp, s') \<Rightarrow> c\<lparr> db := s', temporaries := temporaries c @ [tmp] \<rparr>)"
| "step (Cancel n) c =
     (if n < length (temporaries c) then c\<lparr> db := snd (cancel (temporaries c ! n) (db c)) \<rparr> else c)"
| "step (Commit n) c =
     (if n < length (temporaries c)
      then record_addItem (commit (temporaries c ! n) (db c)) c else c)"
| "step (RemoveItem v) c = c\<lparr> db := snd (removeItem v (db c)) \<rparr>"
| "step (Hide v) c = c\<lparr> db := snd (hide v (db c)) \<rparr>"
| "step (Unhide v) c = c\<lparr> db := snd (unhide v (db c)) \<rparr>"
| "step SaveToMemento c =
     (case saveToMemento (db c) of
        (Inl e, s') \<Rightarrow> c\<lparr> db := s' \<rparr>
      | (Inr m, s') \<Rightarrow> c\<lparr> db := s', mementos := mementos c @ [m] \<rparr>)"
| "step (RestoreFromMemento n) c =
     (if n < length (mementos c)
      then c\<lparr> db := snd (restoreFromMemento (mementos c ! n) (db c)) \<rparr> else c)"

fun run :: "op list \<Rightarrow> session \<Rightarrow> session" where
  "run [] c = c"
| "run (x # xs) c = run xs (step x c)"

text \<open>The key set of the Item Record map and the Hidden Set of the store.\<close>

definition item_keys :: "GeometryDatabase \<Rightarrow> SimpleName set" where
  "item_keys s = fst ` set (the_geometryModel s)"

text \<open>A run in which \<^verbatim>\<open>hide\<close> is only called on items that are in the Item Record map at
  the time of the call.\<close>

fun hides_present :: "op list \<Rightarrow> session \<Rightarrow> bool" where
  "hides_present [] c = True"
| "hides_present (Hide v # xs) c =
     (simpleName v \<in> item_keys (db c) \<and> hides_present xs (step (Hide v) c))"
| "hides_present (x # xs) c = hides_present xs (step x c)"

text \<open>What a memento shows to its holder: the contents of its three collections, the
  view sets of the topology records included.\<close>

definition topology_contents ::
  "GeometryDatabase \<Rightarrow> addr \<Rightarrow> (topo_id \<times> c3d_TopologyItem option \<times> visual_TopologyItem list) list" where
  "topology_contents s a =
     map (\<lambda>(ident, td). (ident, td_model td, ViewSets s (td_view td))) (TopologyMaps s a)"

definition memento_contents ::
  "GeometryDatabase \<Rightarrow> GeometryMemento \<Rightarrow>
     (SimpleName \<times> ItemRecord) list
     \<times> (topo_id \<times> c3d_TopologyItem option \<times> visual_TopologyItem list) list
     \<times> SimpleName set" where
  "memento_contents s m =
     (ItemMaps s (memento_geometryModel m),
      topology_contents s (memento_topologyModel m),
      NameSets s (memento_hidden m))"

text \<open>The level that a region build must produce for one (precision, distance) pair: the
  single polygon buffer of the tessellation at that precision.\<close>

definition region_level_of :: "c3d_Item \<Rightarrow> real \<times> real \<Rightarrow> visual_Level \<Rightarrow> bool" where
  "region_level_of obj pd l =
     (\<exists>mesh grid. CreateMesh_async obj (fst pd) = Inr mesh \<and> GetBuffers mesh = [grid]
        \<and> l = Region_Level grid (snd pd))"

section \<open>Invariants of a session\<close>

text \<open>The identities handed out so far are strictly increasing, not negative, and below
  the counter of the store.\<close>

definition identities_inv :: "session \<Rightarrow> bool" where
  "identities_inv c =
     (sorted_wrt (<) (identities c) \<and> 0 \<le> counter (db c)
      \<and> (\<forall>i \<in> set (identities c). 0 \<le> i \<and> i < counter (db c)))"

text \<open>
  The pairs (Item Record map, Hidden Set) that belong together: the pair the store points
  to, and the pair of every memento handed out. In a session the members of a pair are
  only ever mutated together, and two pairs share one member exactly when they share the
  other; under these conditions each Hidden Set stays inside the key set of its map.
\<close>

definition collection_pairs :: "session \<Rightarrow> (addr \<times> addr) list" where
  "collection_pairs c =
     (geometryModel (db c), hidden (db c))
       # map (\<lambda>m. (memento_geometryModel m, memento_hidden m)) (mementos c)"

definition hidden_inv :: "session \<Rightarrow> bool" where
  "hidden_inv c =
     ((\<forall>p \<in> set (collection_pairs c).
         fst p < nextAddr (db c) \<and> snd p < nextAddr (db c)
         \<and> NameSets (db c) (snd p) \<subseteq> fst ` set (ItemMaps (db c) (fst p)))
      \<and> (\<forall>p \<in> set (collection_pairs c). \<forall>q \<in> set (collection_pairs c).
           (fst p = fst q) = (snd p = snd q)))"

text \<open>The operations that call \<^verbatim>\<open>addItem\<close>, and a run that leaves the counter room for each
  of these calls: the counter plus the number of such operations still to come does not
  exceed \<open>2^53\<close>, so that every increment is exact.\<close>

fun calls_addItem :: "op \<Rightarrow> bool" where
  "calls_addItem (AddItem obj) = True"
| "calls_addItem (Commit n) = True"
| "calls_addItem x = False"

definition addItem_budget :: "op list \<Rightarrow> session \<Rightarrow> bool" where
  "addItem_budget ops c = (counter (db c) + int (length (filter calls_addItem ops)) \<le> 2 ^ 53)"

text \<open>
  Well-formedness of the heap, for the isolation of mementos: the store's collections and
  those of every memento are allocated, every topology record on the heap belongs to a
  parent identity already handed out and points to an allocated view set, and distinct
  mementos hold distinct collections. \<open>detached\<close> says that the store does not point to
  any collection of a memento; \<open>store_frame\<close> says what an operation leaves alone: every
  allocated collection other than the three the store points to, and every allocated
  view set.
\<close>

definition topo_parent :: "topo_id \<Rightarrow> SimpleName" where
  "topo_parent ident = fst (snd ident)"

definition heap_wf :: "GeometryDatabase \<Rightarrow> bool" where
  "heap_wf s =
     (geometryModel s < nextAddr s \<and> topologyModel s < nextAddr s \<and> hidden s < nextAddr s
      \<and> (\<forall>a. \<forall>e \<in> set (TopologyMaps s a).
            topo_parent (fst e) < counter s \<and> td_view (snd e) < nextAddr s))"

definition memento_wf :: "GeometryDatabase \<Rightarrow> GeometryMemento \<Rightarrow> bool" where
  "memento_wf s m =
     (memento_geometryModel m < nextAddr s \<and> memento_topologyModel m < nextAddr s
      \<and> memento_hidden m < nextAddr s)"

definition detached :: "GeometryDatabase \<Rightarrow> GeometryMemento \<Rightarrow> bool" where
  "detached s m =
     (geometryModel s \<noteq> memento_geometryModel m \<and> topologyModel s \<noteq> memento_topologyModel m
      \<and> hidden s \<noteq> memento_hidden m)"

text \<open>One step of the topology walk of \<open>addItem\<close> for the identity \<open>cur\<close>, started when the
  next unused address was \<open>N0\<close>.\<close>

definition walk_inv :: "SimpleName \<Rightarrow> addr \<Rightarrow> GeometryDatabase \<Rightarrow> bool" where
  "walk_inv cur N0 s =
     (N0 \<le> nextAddr s \<and> topologyModel s < N0 \<and> cur < counter s
      \<and> (\<forall>a. \<forall>e \<in> set (TopologyMaps s a).
            topo_parent (fst e) < counter s \<and> td_view (snd e) < nextAddr s
            \<and> (a = topologyModel s \<and> topo_parent (fst e) = cur \<longrightarrow> N0 \<le> td_view (snd e))))"

definition store_frame :: "GeometryDatabase \<Rightarrow> GeometryDatabase \<Rightarrow> bool" where
  "store_frame s s' =
     (nextAddr s \<le> nextAddr s'
      \<and> (\<forall>a. a < nextAddr s \<and> a \<noteq> geometryModel s \<longrightarrow> ItemMaps s' a = ItemMaps s a)
      \<and> (\<forall>a. a < nextAddr s \<and> a \<noteq> topologyModel s \<longrightarrow> TopologyMaps s' a = TopologyMaps s a)
      \<and> (\<forall>a. a < nextAddr s \<and> a \<noteq> hidden s \<longrightarrow> NameSets s' a = NameSets s a)
      \<and> (\<forall>a. a < nextAddr s \<longrightarrow> ViewSets s' a = ViewSets s a))"

definition session_wf :: "session \<Rightarrow> bool" where
  "session_wf c =
     (heap_wf (db c) \<and> (\<forall>m \<in> set (mementos c). memento_wf (db c) m)
      \<and> distinct (map memento_geometryModel (mementos c))
      \<and> distinct (map memento_topologyModel (mementos c))
      \<and> distinct (map memento_hidden (mementos c)))"

section \<open>Example kernel items\<close>

definition example_mesh :: c3d_Mesh where
  "example_mesh =
     \<lparr> GetEdges = [\<lparr> edge_name = 7, edge_i = 0, edge_position = [0, 0, 0, 1, 0, 0] \<rparr>],
       GetOutlineEdges = [\<lparr> edge_name = 7, edge_i = 0, edge_position = [0, 0, 0, 1, 0, 0] \<rparr>],
       GetBuffers = [\<lparr> grid_i = 0, grid_position = [0, 0, 0, 1, 0, 0, 0, 1, 0] \<rparr>],
       IsClosed = False \<rparr>"

definition example_item :: "c3d_SpaceType \<Rightarrow> c3d_Item" where
  "example_item k =
     \<lparr> IsA = k, CreateMesh_async = (\<lambda>sag. Inr example_mesh),
       GetFace = (\<lambda>i. if i = 0 then Some 100 else None),
       FindEdgeByName = (\<lambda>n. if n = 7 then Some 200 else None) \<rparr>"

definition example_failing :: c3d_Item where
  "example_failing = (example_item c3d_Solid)\<lparr> CreateMesh_async := (\<lambda>sag. Inl KernelFailure) \<rparr>"

definition example_region_view :: visual_Item where
  "example_region_view =
     \<lparr> klass = visual_PlaneInstance, simpleName = 0,
       lod = [Region_Level \<lparr> grid_i = 0, grid_position = [0, 0, 0, 1, 0, 0, 0, 1, 0] \<rparr> 50,
              Region_Level \<lparr> grid_i = 0, grid_position = [0, 0, 0, 1, 0, 0, 0, 1, 0] \<rparr> 5,
              Region_Level \<lparr> grid_i = 0, grid_position = [0, 0, 0, 1, 0, 0, 0, 1, 0] \<rparr> 0.5] \<rparr>"

definition example_curve_view :: visual_Item where
  "example_curve_view =
     \<lparr> klass = visual_SpaceInstance, simpleName = 0,
       lod = [Curve3D_Level (GetEdges example_mesh) 50, Curve3D_Level (GetEdges example_mesh) 5,
              Curve3D_Level (GetEdges example_mesh) 0.5] \<rparr>"

definition example_view :: "SimpleName \<Rightarrow> visual_Item" where
  "example_view ident = \<lparr> klass = visual_SpaceInstance, simpleName = ident, lod = [] \<rparr>"

definition example_solid_level :: "real \<Rightarrow> visual_Level" where
  "example_solid_level d =
     Solid_Level
       [visual_CurveEdge 0 \<lparr> edge_name = 7, edge_i = 0, edge_position = [0, 0, 0, 1, 0, 0] \<rparr>]
       [visual_Face 0 \<lparr> grid_i = 0, grid_position = [0, 0, 0, 1, 0, 0, 0, 1, 0] \<rparr>] d"

definition example_solid_view :: visual_Item where
  "example_solid_view =
     \<lparr> klass = visual_Solid, simpleName = 0,
       lod = [example_solid_level 50, example_solid_level 5, example_solid_level 0.5] \<rparr>"

definition example_added :: GeometryDatabase where
  "example_added = snd (addItem (example_item c3d_Solid) new_GeometryDatabase)"

definition example_removed :: GeometryDatabase where
  "example_removed = snd (removeItem example_solid_view example_added)"

definition example_memento :: GeometryMemento where
  "example_memento = \<lparr> memento_geometryModel = 3, memento_topologyModel = 4, memento_hidden = 5 \<rparr>"

definition example_restored :: GeometryDatabase where
  "example_restored =
     snd (restoreFromMemento example_memento (snd (saveToMemento new_GeometryDatabase)))"

section \<open>Properties of the encoding\<close>

lemma compact_scenario_42_face_7:
  "extract_compactTopologyId Face 42 7 = Inr \<lparr> parentId = 42, type = kind_code Face, index = 7 \<rparr>"
  by (simp add: extract_compactTopologyId_def compactTopologyId_def extract_def ToInt32_def
      kind_code_def)

text \<open>
  Where the encoding is sound. The masks are read bit by bit: \<open>0xef\<close> keeps the bits
  0 to 7 except bit 4. For a parent identity in \<open>[0, 2^15)\<close> and an index in \<open>[0, 2^15)\<close>
  whose bit 12 is clear, decoding gives back what was encoded.
\<close>

lemma bit_0xef: "bit (0xef :: 32 word) n \<longleftrightarrow> n < 8 \<and> n \<noteq> 4"
proof -
  have h: "(0xef :: 32 word) = mask 8 AND NOT (push_bit 4 1)"
    by (simp add: mask_eq_exp_minus_1)
  show ?thesis
    unfolding h bit_and_iff bit_not_iff bit_mask_iff bit_push_bit_iff bit_1_iff
    by auto
qed

lemma bit_255: "bit (255 :: 32 word) n \<longleftrightarrow> n < 8"
proof -
  have h: "(255 :: 32 word) = mask 8"
    by (simp add: mask_eq_exp_minus_1)
  show ?thesis
    unfolding h bit_mask_iff
    by auto
qed

lemma bit_0xffff: "bit (0xffff :: 32 word) n \<longleftrightarrow> n < 16"
proof -
  have h: "(0xffff :: 32 word) = mask 16"
    by (simp add: mask_eq_exp_minus_1)
  show ?thesis
    unfolding h bit_mask_iff
    by auto
qed

lemma bit_0x7fff: "bit (0x7fff :: 32 word) n \<longleftrightarrow> n < 15"
proof -
  have h: "(0x7fff :: 32 word) = mask 15"
    by (simp add: mask_eq_exp_minus_1)
  show ?thesis
    unfolding h bit_mask_iff
    by auto
qed

lemma extract_parent_word:
  fixes EF FF :: "32 word"
  assumes "\<And>n. bit EF n \<longleftrightarrow> n < 8 \<and> n \<noteq> 4" and "\<And>n. bit FF n \<longleftrightarrow> n < 8"
  shows "signed_drop_bit 16
           (push_bit 16 (take_bit 15 P)
             OR push_bit 8 (push_bit 7 (take_bit 1 c) OR (signed_drop_bit 8 (take_bit 15 I) AND EF))
             OR (signed_drop_bit 0 (take_bit 15 I) AND FF)) = take_bit 15 P"
  by (rule bit_word_eqI) (auto simp add: bit_simps assms)

lemma extract_type_word:
  fixes EF FF M16 :: "32 word"
  assumes "\<And>n. bit EF n \<longleftrightarrow> n < 8 \<and> n \<noteq> 4" and "\<And>n. bit FF n \<longleftrightarrow> n < 8"
    and "\<And>n. bit M16 n \<longleftrightarrow> n < 16"
  shows "signed_drop_bit 15
           ((push_bit 16 (take_bit 15 P)
             OR push_bit 8 (push_bit 7 (take_bit 1 c) OR (signed_drop_bit 8 (take_bit 15 I) AND EF))
             OR (signed_drop_bit 0 (take_bit 15 I) AND FF)) AND M16) = take_bit 1 c"
  by (rule bit_word_eqI) (auto simp add: bit_simps assms)

lemma extract_index_word:
  fixes EF FF M16 M15 :: "32 word"
  assumes "\<And>n. bit EF n \<longleftrightarrow> n < 8 \<and> n \<noteq> 4" and "\<And>n. bit FF n \<longleftrightarrow> n < 8"
    and "\<And>n. bit M16 n \<longleftrightarrow> n < 16" and "\<And>n. bit M15 n \<longleftrightarrow> n < 15"
    and "\<not> bit I 12"
  shows "((push_bit 16 (take_bit 15 P)
             OR push_bit 8 (push_bit 7 (take_bit 1 c) OR (signed_drop_bit 8 (take_bit 15 I) AND EF))
             OR (signed_drop_bit 0 (take_bit 15 I) AND FF)) AND M16) AND M15 = take_bit 15 I"
proof (rule bit_word_eqI)
  fix n
  assume "n < LENGTH(32)"
  have twelve: "n = 12 \<Longrightarrow> \<not> bit I n"
    using assms(5) by simp
  have eight: "8 \<le> n \<Longrightarrow> 8 + (n - 8) = n"
    by simp
  show "bit (((push_bit 16 (take_bit 15 P)
             OR push_bit 8 (push_bit 7 (take_bit 1 c) OR (signed_drop_bit 8 (take_bit 15 I) AND EF))
             OR (signed_drop_bit 0 (take_bit 15 I) AND FF)) AND M16) AND M15) n
        = bit (take_bit 15 I) n"
    using twelve
    by (cases "n < 8"; cases "n = 12") (auto simp add: bit_simps assms(1-4) eight)
qed

lemma word_of_int_small:
  assumes "0 \<le> x" "x < 2 ^ 15"
  shows "take_bit 15 (word_of_int x :: 32 word) = word_of_int x"
    and "sint (word_of_int x :: 32 word) = x"
proof -
  from assms have "take_bit 15 x = x"
    by (simp add: take_bit_int_eq_self)
  then show "take_bit 15 (word_of_int x :: 32 word) = word_of_int x"
    by (metis take_bit_of_int)
  from assms have "- (2 ^ 31) \<le> x" "x < 2 ^ 31" by simp_all
  then show "sint (word_of_int x :: 32 word) = x"
    by (simp add: sint_sbintrunc' signed_take_bit_int_eq_self)
qed

lemma compact_roundtrip_in_range:
  assumes p: "0 \<le> p" "p < 2 ^ 15" and i: "0 \<le> i" "i < 2 ^ 15" and b: "\<not> bit i 12"
  shows "extract_compactTopologyId k p i = Inr \<lparr> parentId = p, type = kind_code k, index = i \<rparr>"
proof -
  define P :: "32 word" where "P = word_of_int p"
  define I :: "32 word" where "I = word_of_int i"
  define c :: "32 word" where "c = (if k = Edge then 0 else 1)"
  define W where "W = push_bit 16 P OR push_bit 8 (push_bit 7 c OR (signed_drop_bit 8 I AND 0xef))
       OR (signed_drop_bit 0 I AND 255)"
  have P: "take_bit 15 P = P" "sint P = p"
    using word_of_int_small [OF p] by (simp_all add: P_def)
  have I: "take_bit 15 I = I" "sint I = i"
    using word_of_int_small [OF i] by (simp_all add: I_def)
  have c: "take_bit 1 c = c" "sint c = kind_code k"
    by (simp_all add: c_def kind_code_def)
  have I12: "\<not> bit I 12"
    using b by (simp add: I_def bit_word_of_int_iff)
  have enc: "compactTopologyId k p i = Inr (sint W)"
    using p i by (simp add: compactTopologyId_def ToInt32_def W_def P_def I_def c_def Let_def)
  have W: "W = push_bit 16 (take_bit 15 P)
             OR push_bit 8 (push_bit 7 (take_bit 1 c) OR (signed_drop_bit 8 (take_bit 15 I) AND 0xef))
             OR (signed_drop_bit 0 (take_bit 15 I) AND 255)"
    by (simp only: W_def P I c)
  have "signed_drop_bit 16 W = P"
    unfolding W using extract_parent_word [OF bit_0xef bit_255, of P c I] P by simp
  moreover have "signed_drop_bit 15 (W AND 0xffff) = c"
    unfolding W using extract_type_word [OF bit_0xef bit_255 bit_0xffff, of P c I] c by simp
  moreover have "(W AND 0xffff) AND 0x7fff = I"
    unfolding W using extract_index_word [OF bit_0xef bit_255 bit_0xffff bit_0x7fff I12, of P c] I by simp
  ultimately have "extract (sint W) = \<lparr> parentId = p, type = kind_code k, index = i \<rparr>"
    by (simp add: extract_def ToInt32_def Let_def P I c)
  with enc show ?thesis
    by (simp add: extract_compactTopologyId_def)
qed

lemma compactTopologyId_rejects_above:
  "65536 < p \<or> 32768 < i \<Longrightarrow> compactTopologyId k p i = Inl PreconditionFailure"
  by (auto simp: compactTopologyId_def)

text \<open>
  Claim C1: for every kind, every parentId below \<open>2^16\<close> and every index below \<open>2^15\<close>,
  \<open>extract (compactTopologyId kind parentId index)\<close> gives back parentId, kind and index.
  The code does not do this: the high byte of the index is masked with \<open>0xef\<close>, which
  clears bit 4 of that byte (bit 12 of the index). For the edge with parentId 0 and index
  4096 the encoding is 0, and decoding 0 gives index 0, not 4096. A parentId from \<open>2^15\<close>
  on sets the sign bit of the 32-bit result, and the arithmetic shift of \<^verbatim>\<open>extract\<close> then
  gives a negative parentId: 32768 comes back as \<open>-32768\<close>.
\<close>

theorem C1_roundtrip_loses_index_bit_12:
  "compactTopologyId Edge 0 4096 = Inr 0
   \<and> extract_compactTopologyId Edge 0 4096 = Inr \<lparr> parentId = 0, type = 0, index = 0 \<rparr>
   \<and> extract_compactTopologyId Edge 0 4096
       \<noteq> Inr \<lparr> parentId = 0, type = kind_code Edge, index = 4096 \<rparr>
   \<and> compactTopologyId Edge 32768 0 = Inr (- 2147483648)
   \<and> extract_compactTopologyId Edge 32768 0
       = Inr \<lparr> parentId = - 32768, type = 0, index = 0 \<rparr>"
  by (simp add: extract_compactTopologyId_def compactTopologyId_def extract_def ToInt32_def
      kind_code_def)

text \<open>
  Claim C2: \<open>compactTopologyId\<close> fails whenever parentId is at least \<open>2^16\<close> or index is at
  least \<open>2^15\<close>. The guards of the code compare with \<open>>\<close>, so the boundary values pass:
  parentId \<open>65536\<close> is accepted and shifted out of the 32 bits (the result is 0, the
  encoding of parentId 0), and index \<open>32768\<close> is accepted and its bit 15 lands on the kind
  flag.
\<close>

theorem C2_boundary_values_are_accepted:
  "compactTopologyId Edge 65536 0 = Inr 0
   \<and> compactTopologyId Edge 0 32768 = Inr 32768
   \<and> compactTopologyId Face 0 0 = Inr 32768"
  by (simp add: compactTopologyId_def ToInt32_def)

section \<open>The mesh builder\<close>

lemma object2mesh_PlaneInstance:
  assumes "IsA obj = c3d_PlaneInstance"
  shows "object2mesh builder obj ident sag distance =
     (case CreateMesh_async obj sag of
        Inl e \<Rightarrow> Inl e
      | Inr mesh \<Rightarrow>
          (case GetBuffers mesh of
             [grid] \<Rightarrow> Inr (addLOD builder (Region_Level grid distance))
           | _ \<Rightarrow> Inl InvalidPrecondition))"
  using assms
  by (auto simp: object2mesh_def Let_def split: sum.splits list.splits)

lemma object2mesh_all_PlaneInstance:
  assumes "IsA obj = c3d_PlaneInstance"
  shows "object2mesh_all (Builder k ls) obj ident levels = Inr b
    \<Longrightarrow> \<exists>ls'. b = Builder k (ls @ ls') \<and> list_all2 (region_level_of obj) levels ls'"
proof (induction levels arbitrary: ls)
  case Nil
  then show ?case by simp
next
  case (Cons pd levels)
  obtain p d where pd: "pd = (p, d)" by (cases pd)
  from Cons.prems obtain mesh grid where
    m: "CreateMesh_async obj p = Inr mesh" "GetBuffers mesh = [grid]"
    and rest: "object2mesh_all (Builder k (ls @ [Region_Level grid d])) obj ident levels = Inr b"
    by (auto simp: pd object2mesh_PlaneInstance [OF assms] split: sum.splits list.splits)
  from Cons.IH [OF rest] obtain ls' where
    "b = Builder k ((ls @ [Region_Level grid d]) @ ls')" "list_all2 (region_level_of obj) levels ls'"
    by blast
  moreover have "region_level_of obj pd (Region_Level grid d)"
    using m by (simp add: pd region_level_of_def)
  ultimately show ?case
    by (intro exI [of _ "Region_Level grid d # ls'"]) simp
qed

lemma object2mesh_level:
  assumes "object2mesh (Builder k ls) obj ident p d = Inr b"
  shows "\<exists>l. b = Builder k (ls @ [l]) \<and> (IsA obj \<noteq> c3d_Solid \<longrightarrow> Level_topology l = [])"
  using assms
  by (cases "IsA obj")
     (auto simp: object2mesh_def Let_def split: sum.splits if_splits)

lemma object2mesh_all_levels:
  "object2mesh_all (Builder k ls) obj ident levels = Inr b
    \<Longrightarrow> \<exists>ls'. b = Builder k (ls @ ls')
          \<and> (IsA obj \<noteq> c3d_Solid \<longrightarrow> concat (map Level_topology ls') = [])"
proof (induction levels arbitrary: ls)
  case Nil
  then show ?case by auto
next
  case (Cons pd levels)
  obtain p d where pd: "pd = (p, d)" by (cases pd)
  from Cons.prems obtain b1 where
    b1: "object2mesh (Builder k ls) obj ident p d = Inr b1"
    and rest: "object2mesh_all b1 obj ident levels = Inr b"
    by (auto simp: pd split: sum.splits)
  from object2mesh_level [OF b1] obtain l where
    l: "b1 = Builder k (ls @ [l])" "IsA obj \<noteq> c3d_Solid \<longrightarrow> Level_topology l = []"
    by blast
  from Cons.IH [OF rest [unfolded l(1)]] obtain ls' where
    "b = Builder k ((ls @ [l]) @ ls')"
    "IsA obj \<noteq> c3d_Solid \<longrightarrow> concat (map Level_topology ls') = []"
    by blast
  with l(2) show ?case
    by (intro exI [of _ "l # ls'"]) simp
qed

lemma meshes_klass:
  assumes "meshes obj ident levels = Inr v"
  shows "(klass v = visual_Solid) = (IsA obj = c3d_Solid)"
proof -
  from assms obtain k b where
    b: "object2mesh_all (Builder k []) obj ident levels = Inr b"
    and v: "v = (build b)\<lparr> simpleName := ident \<rparr>"
    and k: "(k = visual_Solid) = (IsA obj = c3d_Solid)"
    by (cases "IsA obj") (auto simp: meshes_def split: sum.splits)
  from object2mesh_all_levels [OF b] obtain ls' where "b = Builder k ([] @ ls')"
    by blast
  with v k show ?thesis by simp
qed

lemma meshes_not_Solid:
  assumes "meshes obj ident levels = Inr v" and "IsA obj \<noteq> c3d_Solid"
  shows "traverse_TopologyItems v = []"
proof -
  from assms obtain k b where
    b: "object2mesh_all (Builder k []) obj ident levels = Inr b"
    and v: "v = (build b)\<lparr> simpleName := ident \<rparr>"
    by (auto simp: meshes_def split: sum.splits c3d_SpaceType.splits)
  from object2mesh_all_levels [OF b] assms(2) obtain ls' where
    "b = Builder k ([] @ ls')" "concat (map Level_topology ls') = []"
    by blast
  then show ?thesis
    by (simp add: v traverse_TopologyItems_def)
qed

text \<open>
  Claim C10: building a planar region errors exactly when the tessellation returns a number
  of polygon buffers different from one (zero buffers included), so a region view that
  was built holds exactly one polygon buffer per level. Stated for a kernel item of kind
  \<open>c3d_PlaneInstance\<close>: when the tessellation at a precision returns a mesh, \<open>object2mesh\<close>
  errors if and only if that mesh has a number of buffers other than one; and every view
  that \<open>meshes\<close> returns is a region view whose levels are, pair by pair of the schedule,
  the single buffer of the tessellation at that precision.
\<close>

theorem C10_region_build_needs_one_buffer:
  assumes "IsA obj = c3d_PlaneInstance"
  shows "(CreateMesh_async obj sag = Inr mesh \<longrightarrow>
           (isl (object2mesh builder obj ident sag distance) \<longleftrightarrow> length (GetBuffers mesh) \<noteq> 1))
       \<and> (meshes obj ident levels = Inr v \<longrightarrow>
           klass v = visual_PlaneInstance \<and> list_all2 (region_level_of obj) levels (lod v))"
proof (intro conjI impI)
  assume "CreateMesh_async obj sag = Inr mesh"
  then show "isl (object2mesh builder obj ident sag distance) \<longleftrightarrow> length (GetBuffers mesh) \<noteq> 1"
    by (cases "GetBuffers mesh"; cases "tl (GetBuffers mesh)")
       (auto simp: object2mesh_PlaneInstance [OF assms])
next
  assume "meshes obj ident levels = Inr v"
  then obtain b where b: "object2mesh_all (Builder visual_PlaneInstance []) obj ident levels = Inr b"
    and v: "v = (build b)\<lparr> simpleName := ident \<rparr>"
    using assms by (auto simp: meshes_def split: sum.splits)
  from object2mesh_all_PlaneInstance [OF assms b] obtain ls' where
    "b = Builder visual_PlaneInstance ([] @ ls')" "list_all2 (region_level_of obj) levels ls'"
    by blast
  then show "klass v = visual_PlaneInstance" "list_all2 (region_level_of obj) levels (lod v)"
    by (simp_all add: v)
qed

theorem C10_region_build_witness:
  "IsA (example_item c3d_PlaneInstance) = c3d_PlaneInstance
   \<and> CreateMesh_async (example_item c3d_PlaneInstance) 0.1 = Inr example_mesh
   \<and> length (GetBuffers example_mesh) = 1
   \<and> \<not> isl (object2mesh (Builder visual_PlaneInstance []) (example_item c3d_PlaneInstance) 0 0.1 50)
   \<and> meshes (example_item c3d_PlaneInstance) 0 precision_distance = Inr example_region_view
   \<and> klass example_region_view = visual_PlaneInstance
   \<and> list_all2 (region_level_of (example_item c3d_PlaneInstance)) precision_distance
         (lod example_region_view)"
proof -
  have k: "IsA (example_item c3d_PlaneInstance) = c3d_PlaneInstance"
    by (simp add: example_item_def)
  have m: "CreateMesh_async (example_item c3d_PlaneInstance) 0.1 = Inr example_mesh"
    by (simp add: example_item_def)
  have n: "length (GetBuffers example_mesh) = 1"
    by (simp add: example_mesh_def)
  have v: "meshes (example_item c3d_PlaneInstance) 0 precision_distance = Inr example_region_view"
    by (simp add: meshes_def precision_distance_def object2mesh_def example_item_def
        example_mesh_def example_region_view_def)
  show ?thesis
    using C10_region_build_needs_one_buffer [OF k, where sag = "0.1" and mesh = example_mesh
        and builder = "Builder visual_PlaneInstance []" and ident = 0 and distance = 50
        and levels = precision_distance and v = example_region_view] m n v k
    by simp
qed

section \<open>Adding and removing items\<close>

lemma removeTopologyItems_frame [simp]:
  "ItemMaps (removeTopologyItems v s) = ItemMaps s"
  "NameSets (removeTopologyItems v s) = NameSets s"
  "ViewSets (removeTopologyItems v s) = ViewSets s"
  "geometryModel (removeTopologyItems v s) = geometryModel s"
  "topologyModel (removeTopologyItems v s) = topologyModel s"
  "hidden (removeTopologyItems v s) = hidden s"
  "counter (removeTopologyItems v s) = counter s"
  "nextAddr (removeTopologyItems v s) = nextAddr s"
  "temporaryObjects (removeTopologyItems v s) = temporaryObjects s"
  by (simp_all add: removeTopologyItems_def)

lemma addTopologyItem_frame:
  assumes "addTopologyItem parent t s = (r, s')"
  shows "ItemMaps s' = ItemMaps s" "NameSets s' = NameSets s"
    "geometryModel s' = geometryModel s" "topologyModel s' = topologyModel s"
    "hidden s' = hidden s" "counter s' = counter s" "nextAddr s \<le> nextAddr s'"
    "temporaryObjects s' = temporaryObjects s"
  using assms
  by (auto simp: addTopologyItem_def Let_def split: if_splits option.splits)

lemma addTopologyItems_frame:
  assumes "addTopologyItems parent ts s = (r, s')"
  shows "ItemMaps s' = ItemMaps s \<and> NameSets s' = NameSets s
    \<and> geometryModel s' = geometryModel s \<and> topologyModel s' = topologyModel s
    \<and> hidden s' = hidden s \<and> counter s' = counter s \<and> nextAddr s \<le> nextAddr s'
    \<and> temporaryObjects s' = temporaryObjects s"
  using assms
proof (induction ts arbitrary: s)
  case Nil
  then show ?case by simp
next
  case (Cons t ts)
  obtain r1 s1 where a: "addTopologyItem parent t s = (r1, s1)"
    by (cases "addTopologyItem parent t s")
  note f = addTopologyItem_frame [OF a]
  show ?case
  proof (cases r1)
    case (Inl e)
    with Cons.prems a f show ?thesis by simp
  next
    case (Inr u)
    with Cons.prems a have "addTopologyItems parent ts s1 = (r, s')" by simp
    from Cons.IH [OF this] f show ?thesis by simp
  qed
qed

lemma addTopologyItem_keys:
  assumes "addTopologyItem parent t s = (Inr u, s')"
  shows "fst ` set (the_topologyModel s') = insert (TopologyItem_simpleName t) (fst ` set (the_topologyModel s))"
proof (cases "map_of (the_topologyModel s) (TopologyItem_simpleName t)")
  case None
  with assms obtain td where
    "the_topologyModel s' = AList.update (TopologyItem_simpleName t) td (the_topologyModel s)"
    by (auto simp: addTopologyItem_def Let_def the_topologyModel_def split: if_splits)
  then show ?thesis
    by (simp add: AList.dom_update)
next
  case (Some td)
  then have "TopologyItem_simpleName t \<in> fst ` set (the_topologyModel s)"
    by (metis map_of_eq_None_iff option.distinct(1))
  moreover from assms Some have "the_topologyModel s' = the_topologyModel s"
    by (auto simp: addTopologyItem_def Let_def the_topologyModel_def split: if_splits)
  ultimately show ?thesis by (simp add: insert_absorb)
qed

lemma addTopologyItems_keys:
  assumes "addTopologyItems parent ts s = (Inr u, s')"
  shows "fst ` set (the_topologyModel s') = TopologyItem_simpleName ` set ts \<union> fst ` set (the_topologyModel s)"
  using assms
proof (induction ts arbitrary: s)
  case Nil
  then show ?case by simp
next
  case (Cons t ts)
  obtain r1 s1 where a: "addTopologyItem parent t s = (r1, s1)"
    by (cases "addTopologyItem parent t s")
  with Cons.prems obtain u1 where r1: "r1 = Inr u1" and rest: "addTopologyItems parent ts s1 = (Inr u, s')"
    by (cases r1) auto
  from Cons.IH [OF rest] addTopologyItem_keys [OF a [unfolded r1]]
  show ?case by auto
qed

lemma dom_delete: "fst ` set (AList.delete k al) = fst ` set al - {k}"
  by (induction al) auto

lemma fold_delete_keys:
  "fst ` set (fold (\<lambda>x m. AList.delete (f x) m) xs al) = fst ` set al - f ` set xs"
proof (induction xs arbitrary: al)
  case Nil
  then show ?case by simp
next
  case (Cons x xs)
  have "fst ` set (fold (\<lambda>x m. AList.delete (f x) m) (x # xs) al)
      = (fst ` set al - {f x}) - f ` set xs"
    using Cons.IH [of "AList.delete (f x) al"] by (simp add: dom_delete)
  also have "\<dots> = fst ` set al - f ` set (x # xs)"
    by auto
  finally show ?case .
qed

lemma meshes_simpleName:
  "meshes obj ident levels = Inr v \<Longrightarrow> simpleName v = ident"
  by (auto simp: meshes_def split: sum.splits c3d_SpaceType.splits)

lemma lookupItemById_absent:
  "ident \<notin> item_keys s \<Longrightarrow> lookupItemById ident s = Inl (MissingFromGeometryModel ident)"
  by (simp add: lookupItemById_def item_keys_def map_of_eq_None_iff [THEN iffD2])

lemma lookupTopologyItemById_absent:
  "ident \<notin> fst ` set (the_topologyModel s)
   \<Longrightarrow> lookupTopologyItemById ident s = Inl (MissingFromTopologyModel ident)"
  by (simp add: lookupTopologyItemById_def map_of_eq_None_iff [THEN iffD2])

lemma lookupTopologyItemById_present:
  "ident \<in> fst ` set (the_topologyModel s) \<Longrightarrow> \<not> isl (lookupTopologyItemById ident s)"
  using map_of_eq_None_iff [of "the_topologyModel s" ident]
  by (auto simp: lookupTopologyItemById_def split: option.splits)

lemma removeItem_keys:
  assumes "removeItem v s = (r, s')"
  shows "r = Inr ()" "item_keys s' = item_keys s - {simpleName v}"
    "fst ` set (the_topologyModel s')
       = fst ` set (the_topologyModel s) - TopologyItem_simpleName ` set (traverse_TopologyItems v)"
proof -
  from assms have r: "r = Inr ()" and s': "s' = snd (removeItem v s)"
    by (simp_all add: removeItem_def Let_def)
  show "r = Inr ()" by (rule r)
  show "item_keys s' = item_keys s - {simpleName v}"
    by (simp add: s' removeItem_def Let_def item_keys_def the_geometryModel_def dom_delete)
  show "fst ` set (the_topologyModel s')
       = fst ` set (the_topologyModel s) - TopologyItem_simpleName ` set (traverse_TopologyItems v)"
    by (simp add: s' removeItem_def Let_def the_topologyModel_def removeTopologyItems_def
        fold_delete_keys)
qed

lemma addItem_success:
  assumes "addItem obj s = (Inr v, s1)"
  shows "simpleName v = counter s"
    "lookupItemById (simpleName v) s1 = Inr (v, obj)"
    "TopologyItem_simpleName ` set (traverse_TopologyItems v) \<subseteq> fst ` set (the_topologyModel s1)"
proof -
  from assms obtain v0 where m: "meshes obj (counter s) precision_distance = Inr v0"
    by (auto simp: addItem_def Let_def split: sum.splits)
  define s0 where "s0 = s\<lparr> counter := js_increment (counter s) \<rparr>"
  define sa where "sa = s0\<lparr> ItemMaps := (ItemMaps s0)
                          (geometryModel s0 :=
                             AList.update (counter s) (v0, obj) (the_geometryModel s0)) \<rparr>"
  have look: "lookupItemById (counter s) sa = Inr (v0, obj)"
    by (simp add: lookupItemById_def sa_def the_geometryModel_def AList.update_conv')
  from meshes_simpleName [OF m] have n: "simpleName v0 = counter s" .
  show "simpleName v = counter s" "lookupItemById (simpleName v) s1 = Inr (v, obj)"
    "TopologyItem_simpleName ` set (traverse_TopologyItems v) \<subseteq> fst ` set (the_topologyModel s1)"
  proof -
    have c: "(\<exists>u. klass v0 = visual_Solid \<and> v = v0
        \<and> addTopologyItems obj (traverse_TopologyItems v0) sa = (Inr u, s1))
      \<or> (klass v0 \<noteq> visual_Solid \<and> v = v0 \<and> s1 = sa)"
      using assms m
      by (auto simp: addItem_def Let_def s0_def sa_def split: if_splits prod.splits sum.splits)
    then consider (solid) u where "klass v0 = visual_Solid" "v = v0"
        "addTopologyItems obj (traverse_TopologyItems v0) sa = (Inr u, s1)"
      | (other) "klass v0 \<noteq> visual_Solid" "v = v0" "s1 = sa"
      by blast
    note c = this
    from c show "simpleName v = counter s" using n by cases auto
    have same: "ItemMaps s1 = ItemMaps sa \<and> geometryModel s1 = geometryModel sa" if
      "addTopologyItems obj (traverse_TopologyItems v0) sa = (Inr u, s1)" for u
      using addTopologyItems_frame [OF that] by simp
    from c show "lookupItemById (simpleName v) s1 = Inr (v, obj)"
    proof cases
      case solid
      from same [OF solid(3)] look n solid(2) show ?thesis
        by (simp add: lookupItemById_def the_geometryModel_def)
    next
      case other
      with look n show ?thesis by simp
    qed
    from c show "TopologyItem_simpleName ` set (traverse_TopologyItems v) \<subseteq> fst ` set (the_topologyModel s1)"
    proof cases
      case solid
      from addTopologyItems_keys [OF solid(3)] solid(2) show ?thesis by auto
    next
      case other
      with meshes_klass [OF m] have "IsA obj \<noteq> c3d_Solid" by simp
      from meshes_not_Solid [OF m this] other show ?thesis by simp
    qed
  qed
qed

lemma addTopologyItem_succeeds:
  "IsA parent = c3d_Solid \<Longrightarrow> fst (addTopologyItem parent t s) = Inr ()"
  by (simp add: addTopologyItem_def Let_def split: option.splits)

lemma addTopologyItems_succeeds:
  assumes "IsA parent = c3d_Solid"
  shows "fst (addTopologyItems parent ts s) = Inr ()"
proof (induction ts arbitrary: s)
  case Nil
  then show ?case by simp
next
  case (Cons t ts)
  obtain r1 s1 where a: "addTopologyItem parent t s = (r1, s1)"
    by (cases "addTopologyItem parent t s")
  with addTopologyItem_succeeds [OF assms, of t s] have "r1 = Inr ()" by simp
  with a Cons.IH [of s1] show ?case by simp
qed

lemma addItem_returns_view:
  assumes "meshes obj (counter s) precision_distance = Inr v"
  shows "fst (addItem obj s) = Inr v"
proof (cases "klass v = visual_Solid")
  case True
  with meshes_klass [OF assms] have solid: "IsA obj = c3d_Solid" by simp
  define sa where "sa = s\<lparr> counter := js_increment (counter s),
      ItemMaps := (ItemMaps s)(geometryModel s :=
         AList.update (counter s) (v, obj) (the_geometryModel s)) \<rparr>"
  obtain r2 s2 where a: "addTopologyItems obj (traverse_TopologyItems v) sa = (r2, s2)"
    by (cases "addTopologyItems obj (traverse_TopologyItems v) sa")
  with addTopologyItems_succeeds [OF solid, of "traverse_TopologyItems v" sa]
  have "r2 = Inr ()" by simp
  with a assms True show ?thesis
    by (simp add: addItem_def Let_def sa_def the_geometryModel_def)
next
  case False
  with assms show ?thesis
    by (simp add: addItem_def Let_def)
qed

lemma addItem_frame:
  assumes "addItem obj s = (r, s')"
  shows "NameSets s' = NameSets s" "geometryModel s' = geometryModel s" "hidden s' = hidden s"
    "nextAddr s \<le> nextAddr s'" "fst ` set (ItemMaps s a) \<subseteq> fst ` set (ItemMaps s' a)"
proof -
  have "NameSets s' = NameSets s \<and> geometryModel s' = geometryModel s \<and> hidden s' = hidden s
    \<and> nextAddr s \<le> nextAddr s' \<and> fst ` set (ItemMaps s a) \<subseteq> fst ` set (ItemMaps s' a)"
  proof (cases "meshes obj (counter s) precision_distance")
    case (Inl e)
    with assms show ?thesis by (auto simp: addItem_def Let_def)
  next
    case (Inr v)
    define sa where "sa = s\<lparr> counter := js_increment (counter s),
      ItemMaps := (ItemMaps s)(geometryModel s :=
         AList.update (counter s) (v, obj) (the_geometryModel s)) \<rparr>"
    have sa: "NameSets sa = NameSets s" "geometryModel sa = geometryModel s" "hidden sa = hidden s"
      "nextAddr sa = nextAddr s" "fst ` set (ItemMaps s a) \<subseteq> fst ` set (ItemMaps sa a)"
      by (auto simp: sa_def the_geometryModel_def AList.dom_update)
    obtain r2 s2 where a: "addTopologyItems obj (traverse_TopologyItems v) sa = (r2, s2)"
      by (cases "addTopologyItems obj (traverse_TopologyItems v) sa")
    note f = addTopologyItems_frame [OF a]
    from assms Inr a have "s' = sa \<or> s' = s2"
      by (cases r2) (auto simp: addItem_def Let_def sa_def the_geometryModel_def split: if_splits)
    with f sa show ?thesis by (elim disjE) simp_all
  qed
  then show "NameSets s' = NameSets s" "geometryModel s' = geometryModel s" "hidden s' = hidden s"
    "nextAddr s \<le> nextAddr s'" "fst ` set (ItemMaps s a) \<subseteq> fst ` set (ItemMaps s' a)"
    by simp_all
qed

lemma addItem_counter: "counter (snd (addItem obj s)) = js_increment (counter s)"
proof (cases "meshes obj (counter s) precision_distance")
  case (Inl e)
  then show ?thesis by (simp add: addItem_def Let_def)
next
  case (Inr v)
  define sa where "sa = s\<lparr> counter := js_increment (counter s),
      ItemMaps := (ItemMaps s)(geometryModel s :=
         AList.update (counter s) (v, obj) (the_geometryModel s)) \<rparr>"
  obtain r2 s2 where a: "addTopologyItems obj (traverse_TopologyItems v) sa = (r2, s2)"
    by (cases "addTopologyItems obj (traverse_TopologyItems v) sa")
  from addTopologyItems_frame [OF a] have "counter s2 = js_increment (counter s)"
    by (simp add: sa_def)
  with a Inr show ?thesis
    by (cases r2) (simp_all add: addItem_def Let_def sa_def the_geometryModel_def)
qed

lemma example_solid_meshes:
  "meshes (example_item c3d_Solid) 0 precision_distance = Inr example_solid_view"
  by (simp add: meshes_def precision_distance_def object2mesh_def example_item_def
      example_mesh_def example_solid_view_def example_solid_level_def Face_build_def
      CurveEdge_build_def)

lemma example_solid_added:
  "fst (addItem (example_item c3d_Solid) new_GeometryDatabase) = Inr example_solid_view"
proof -
  have "counter new_GeometryDatabase = 0"
    by (simp add: new_GeometryDatabase_def)
  with example_solid_meshes show ?thesis
    by (intro addItem_returns_view) simp
qed

text \<open>
  Claim C4: removing an item that is not in the Item Record map fails. The code has no
  such check: \<^verbatim>\<open>removeItem\<close> deletes from the three collections, and deleting an absent key
  from a \<^verbatim>\<open>Map\<close> or a \<^verbatim>\<open>Set\<close> does nothing and does not throw. On the empty store the call
  for an item with identity 5 returns normally.
\<close>

theorem C4_counterexample:
  "simpleName (example_view 5) \<notin> item_keys new_GeometryDatabase
   \<and> \<not> isl (fst (removeItem (example_view 5) new_GeometryDatabase))"
  by (simp add: removeItem_def Let_def item_keys_def the_geometryModel_def
      new_GeometryDatabase_def example_view_def)

text \<open>
  Claim C4 as amended: for every store state and every item that is not in the Item Record
  map, \<^verbatim>\<open>removeItem\<close> completes without an error and leaves the Item Record map as it was.
\<close>

theorem C4_removeItem_absent_completes:
  assumes "simpleName v \<notin> item_keys s"
  shows "fst (removeItem v s) = Inr ()
       \<and> the_geometryModel (snd (removeItem v s)) = the_geometryModel s"
  using assms
  by (simp add: removeItem_def Let_def item_keys_def the_geometryModel_def)

theorem C4_witness:
  "simpleName (example_view 5) \<notin> item_keys new_GeometryDatabase
   \<and> fst (removeItem (example_view 5) new_GeometryDatabase) = Inr ()
   \<and> the_geometryModel (snd (removeItem (example_view 5) new_GeometryDatabase)) = []"
proof -
  have a: "simpleName (example_view 5) \<notin> item_keys new_GeometryDatabase"
    by (simp add: item_keys_def the_geometryModel_def new_GeometryDatabase_def)
  have b: "the_geometryModel new_GeometryDatabase = []"
    by (simp add: the_geometryModel_def new_GeometryDatabase_def)
  show ?thesis
    using C4_removeItem_absent_completes [OF a] a b by simp
qed

text \<open>
  Claim C5: an item that was added with \<^verbatim>\<open>addItem\<close> and then removed with \<^verbatim>\<open>removeItem\<close> can
  no longer be looked up, and no topology record of any of its faces and edges is left.
  Here \<open>s1\<close> is the state right after the item was added, where the item and each of its
  sub-entities are found, and \<open>s'\<close> is any state in which the returned view is removed
  (the state \<open>s1\<close> itself, or any later one).
\<close>

theorem C5_added_then_removed:
  assumes "addItem obj s = (Inr v, s1)" and "removeItem v s' = (r, s2)"
  shows "lookupItemById (simpleName v) s1 = Inr (v, obj)
     \<and> r = Inr ()
     \<and> lookupItemById (simpleName v) s2 = Inl (MissingFromGeometryModel (simpleName v))
     \<and> (\<forall>t \<in> set (traverse_TopologyItems v).
          \<not> isl (lookupTopologyItemById (TopologyItem_simpleName t) s1)
          \<and> lookupTopologyItemById (TopologyItem_simpleName t) s2
              = Inl (MissingFromTopologyModel (TopologyItem_simpleName t)))"
proof -
  note added = addItem_success [OF assms(1)]
  note removed = removeItem_keys [OF assms(2)]
  have "simpleName v \<notin> item_keys s2"
    by (simp add: removed(2))
  then have gone: "lookupItemById (simpleName v) s2 = Inl (MissingFromGeometryModel (simpleName v))"
    by (rule lookupItemById_absent)
  have topo: "\<not> isl (lookupTopologyItemById (TopologyItem_simpleName t) s1)
      \<and> lookupTopologyItemById (TopologyItem_simpleName t) s2
          = Inl (MissingFromTopologyModel (TopologyItem_simpleName t))"
    if t: "t \<in> set (traverse_TopologyItems v)" for t
  proof
    from t added(3) have "TopologyItem_simpleName t \<in> fst ` set (the_topologyModel s1)"
      by blast
    then show "\<not> isl (lookupTopologyItemById (TopologyItem_simpleName t) s1)"
      by (rule lookupTopologyItemById_present)
    from t have "TopologyItem_simpleName t \<notin> fst ` set (the_topologyModel s2)"
      by (simp add: removed(3))
    then show "lookupTopologyItemById (TopologyItem_simpleName t) s2
          = Inl (MissingFromTopologyModel (TopologyItem_simpleName t))"
      by (rule lookupTopologyItemById_absent)
  qed
  from added(2) removed(1) gone topo show ?thesis
    by blast
qed

theorem C5_witness:
  "addItem (example_item c3d_Solid) new_GeometryDatabase = (Inr example_solid_view, example_added)
   \<and> removeItem example_solid_view example_added = (Inr (), example_removed)
   \<and> lookupItemById 0 example_added = Inr (example_solid_view, example_item c3d_Solid)
   \<and> lookupItemById 0 example_removed = Inl (MissingFromGeometryModel 0)
   \<and> \<not> isl (lookupTopologyItemById (Face, 0, 0) example_added)
   \<and> \<not> isl (lookupTopologyItemById (Edge, 0, 0) example_added)
   \<and> lookupTopologyItemById (Face, 0, 0) example_removed = Inl (MissingFromTopologyModel (Face, 0, 0))
   \<and> lookupTopologyItemById (Edge, 0, 0) example_removed = Inl (MissingFromTopologyModel (Edge, 0, 0))"
proof -
  have a: "addItem (example_item c3d_Solid) new_GeometryDatabase = (Inr example_solid_view, example_added)"
    using example_solid_added by (simp add: example_added_def prod_eq_iff)
  have r: "removeItem example_solid_view example_added = (Inr (), example_removed)"
    by (simp add: example_removed_def removeItem_def Let_def)
  have n: "simpleName example_solid_view = 0"
    by (simp add: example_solid_view_def)
  have t: "set (traverse_TopologyItems example_solid_view) =
     {visual_CurveEdge 0 \<lparr> edge_name = 7, edge_i = 0, edge_position = [0, 0, 0, 1, 0, 0] \<rparr>,
      visual_Face 0 \<lparr> grid_i = 0, grid_position = [0, 0, 0, 1, 0, 0, 0, 1, 0] \<rparr>}"
    by (auto simp: traverse_TopologyItems_def example_solid_view_def example_solid_level_def)
  show ?thesis
    using C5_added_then_removed [OF a r] a r
    by (simp add: n t)
qed

section \<open>Mementos\<close>

text \<open>
  Claim C6: \<^verbatim>\<open>saveToMemento\<close> followed at once by \<^verbatim>\<open>restoreFromMemento\<close> of the memento it
  returned leaves \<^verbatim>\<open>visibleObjects\<close>, every \<^verbatim>\<open>lookupItemById\<close> and every
  \<^verbatim>\<open>lookupTopologyItemById\<close> unchanged. The topology records found are the same objects as
  before, and no view set has changed.
\<close>

theorem C6_save_then_restore_unchanged:
  "\<exists>m s1. saveToMemento s = (Inr m, s1)
     \<and> visibleObjects (snd (restoreFromMemento m s1)) = visibleObjects s
     \<and> (\<forall>ident. lookupItemById ident (snd (restoreFromMemento m s1)) = lookupItemById ident s)
     \<and> (\<forall>ident. lookupTopologyItemById ident (snd (restoreFromMemento m s1))
            = lookupTopologyItemById ident s)
     \<and> ViewSets (snd (restoreFromMemento m s1)) = ViewSets s"
  by (simp add: saveToMemento_def restoreFromMemento_def Let_def visibleObjects_def
      lookupItemById_def lookupTopologyItemById_def the_geometryModel_def the_topologyModel_def
      the_hidden_def)

subsection \<open>A memento is isolated until it is restored\<close>

lemma set_update_subset: "set (AList.update k v al) \<subseteq> insert (k, v) (set al)"
  by (induction al) auto

lemma set_delete_subset: "set (AList.delete k al) \<subseteq> set al"
  by (auto simp: AList.delete_eq)

lemma set_fold_delete_subset:
  "set (fold (\<lambda>x m. AList.delete (f x) m) xs al) \<subseteq> set al"
proof (induction xs arbitrary: al)
  case Nil
  then show ?case by simp
next
  case (Cons x xs)
  from Cons.IH [of "AList.delete (f x) al"] set_delete_subset [of "f x" al]
  show ?case by auto
qed

lemma walk_inv_entry:
  assumes "walk_inv cur N0 s" and "e \<in> set (TopologyMaps s a)"
  shows "topo_parent (fst e) < counter s" and "td_view (snd e) < nextAddr s"
    and "a = topologyModel s \<Longrightarrow> topo_parent (fst e) = cur \<Longrightarrow> N0 \<le> td_view (snd e)"
  using assms by (simp_all add: walk_inv_def)

lemma addTopologyItem_walk:
  assumes inv: "walk_inv cur N0 s" and t: "topo_parent (TopologyItem_simpleName t) = cur"
    and a: "addTopologyItem parent t s = (r, s')"
  shows "walk_inv cur N0 s'"
    and "\<forall>a. a < N0 \<longrightarrow> ViewSets s' a = ViewSets s a"
    and "\<forall>a. a \<noteq> topologyModel s \<longrightarrow> TopologyMaps s' a = TopologyMaps s a"
proof -
  show "walk_inv cur N0 s'"
  proof (cases "IsA parent = c3d_Solid")
    case False
    with a inv show ?thesis by (simp add: addTopologyItem_def)
  next
    case True
    show ?thesis
    proof (cases "map_of (the_topologyModel s) (TopologyItem_simpleName t)")
      case None
      define td where "td = \<lparr> td_model = (case t of
                           visual_Face p grid \<Rightarrow> GetFace parent (grid_i grid)
                         | visual_CurveEdge p edge \<Rightarrow> FindEdgeByName parent (edge_name edge)),
                       td_view = nextAddr s \<rparr>"
      from a True None have s': "s' = s\<lparr> nextAddr := nextAddr s + 1,
                     TopologyMaps := (TopologyMaps s)
                       (topologyModel s :=
                          AList.update (TopologyItem_simpleName t) td (the_topologyModel s)),
                     ViewSets := (ViewSets s)(nextAddr s := [t]) \<rparr>"
        by (simp add: addTopologyItem_def Let_def td_def)
      have new: "e \<in> set (TopologyMaps s' a) \<Longrightarrow>
          e \<in> set (TopologyMaps s a) \<or> (a = topologyModel s \<and> e = (TopologyItem_simpleName t, td))" for e a
        using set_update_subset [of "TopologyItem_simpleName t" td "the_topologyModel s"]
        by (auto simp: s' the_topologyModel_def split: if_splits)
      have old: "topo_parent (fst e) < counter s \<and> td_view (snd e) < nextAddr s
          \<and> (a = topologyModel s \<and> topo_parent (fst e) = cur \<longrightarrow> N0 \<le> td_view (snd e))"
        if "e \<in> set (TopologyMaps s a)" for e a
        using inv that by (simp add: walk_inv_def)
      have base: "N0 \<le> nextAddr s" "topologyModel s < N0" "cur < counter s"
        using inv by (simp_all add: walk_inv_def)
      have fields: "nextAddr s' = nextAddr s + 1" "topologyModel s' = topologyModel s"
        "counter s' = counter s"
        by (simp_all add: s')
      have "topo_parent (fst e) < counter s' \<and> td_view (snd e) < nextAddr s'
          \<and> (a = topologyModel s' \<and> topo_parent (fst e) = cur \<longrightarrow> N0 \<le> td_view (snd e))"
        if e: "e \<in> set (TopologyMaps s' a)" for e a
      proof -
        from new [OF e] consider "e \<in> set (TopologyMaps s a)"
          | "a = topologyModel s" "e = (TopologyItem_simpleName t, td)" by blast
        then show ?thesis
        proof cases
          case 1
          from old [OF 1] show ?thesis by (simp add: fields)
        next
          case 2
          with t base show ?thesis by (simp add: fields td_def)
        qed
      qed
      with base show ?thesis
        unfolding walk_inv_def fields by simp
    next
      case (Some td)
      with a True have s': "s' = s\<lparr> ViewSets := (ViewSets s)(td_view td := ViewSets s (td_view td) @ [t]) \<rparr>"
        by (simp add: addTopologyItem_def Let_def)
      with inv show ?thesis by (simp add: walk_inv_def)
    qed
  qed
  show "\<forall>a. a < N0 \<longrightarrow> ViewSets s' a = ViewSets s a"
  proof (cases "IsA parent = c3d_Solid")
    case False
    with a show ?thesis by (simp add: addTopologyItem_def)
  next
    case True
    show ?thesis
    proof (cases "map_of (the_topologyModel s) (TopologyItem_simpleName t)")
      case None
      with a True inv show ?thesis
        by (auto simp: addTopologyItem_def Let_def walk_inv_def)
    next
      case (Some td)
      then have "(TopologyItem_simpleName t, td) \<in> set (TopologyMaps s (topologyModel s))"
        by (simp add: the_topologyModel_def map_of_SomeD)
      from walk_inv_entry(3) [OF inv this] t have "N0 \<le> td_view td"
        by simp
      with a True Some show ?thesis
        by (auto simp: addTopologyItem_def Let_def)
    qed
  qed
  show "\<forall>a. a \<noteq> topologyModel s \<longrightarrow> TopologyMaps s' a = TopologyMaps s a"
    using a by (auto simp: addTopologyItem_def Let_def split: if_splits option.splits)
qed

lemma addTopologyItems_walk:
  assumes "walk_inv cur N0 s" and "\<forall>t \<in> set ts. topo_parent (TopologyItem_simpleName t) = cur"
    and "addTopologyItems parent ts s = (r, s')"
  shows "walk_inv cur N0 s' \<and> (\<forall>a. a < N0 \<longrightarrow> ViewSets s' a = ViewSets s a)
    \<and> (\<forall>a. a \<noteq> topologyModel s \<longrightarrow> TopologyMaps s' a = TopologyMaps s a)"
  using assms
proof (induction ts arbitrary: s)
  case Nil
  then show ?case by simp
next
  case (Cons t ts)
  obtain r1 s1 where a: "addTopologyItem parent t s = (r1, s1)"
    by (cases "addTopologyItem parent t s")
  from Cons.prems(2) have t: "topo_parent (TopologyItem_simpleName t) = cur"
    and ts: "\<forall>t \<in> set ts. topo_parent (TopologyItem_simpleName t) = cur"
    by simp_all
  note w = addTopologyItem_walk [OF Cons.prems(1) t a]
  show ?case
  proof (cases r1)
    case (Inl e)
    with Cons.prems(3) a w show ?thesis by simp
  next
    case (Inr u)
    with Cons.prems(3) a have rest: "addTopologyItems parent ts s1 = (r, s')" by simp
    have tm: "topologyModel s1 = topologyModel s"
      using addTopologyItem_frame(4) [OF a] .
    from Cons.IH [OF w(1) ts rest] w(2,3) tm show ?thesis by simp
  qed
qed

lemma heap_wf_entry:
  assumes "heap_wf s" and "e \<in> set (TopologyMaps s a)"
  shows "topo_parent (fst e) < counter s" and "td_view (snd e) < nextAddr s"
  using assms by (simp_all add: heap_wf_def)

lemma memento_contents_frame:
  assumes wf: "heap_wf s" and m: "memento_wf s m" and d: "detached s m" and f: "store_frame s s'"
  shows "memento_contents s' m = memento_contents s m"
proof -
  from m d f have maps: "ItemMaps s' (memento_geometryModel m) = ItemMaps s (memento_geometryModel m)"
    "TopologyMaps s' (memento_topologyModel m) = TopologyMaps s (memento_topologyModel m)"
    "NameSets s' (memento_hidden m) = NameSets s (memento_hidden m)"
    by (simp_all add: memento_wf_def detached_def store_frame_def)
  have "(case e of (ident, td) \<Rightarrow> (ident, td_model td, ViewSets s' (td_view td)))
      = (case e of (ident, td) \<Rightarrow> (ident, td_model td, ViewSets s (td_view td)))"
    if "e \<in> set (TopologyMaps s (memento_topologyModel m))" for e
  proof -
    from heap_wf_entry(2) [OF wf that] f have "ViewSets s' (td_view (snd e)) = ViewSets s (td_view (snd e))"
      by (simp add: store_frame_def)
    then show ?thesis by (cases e) simp
  qed
  then have "topology_contents s' (memento_topologyModel m) = topology_contents s (memento_topologyModel m)"
    by (simp add: topology_contents_def maps(2))
  with maps show ?thesis
    by (simp add: memento_contents_def)
qed

lemma object2mesh_level_parent:
  assumes "object2mesh (Builder k ls) obj ident p d = Inr b"
  shows "\<exists>l. b = Builder k (ls @ [l])
    \<and> (\<forall>t \<in> set (Level_topology l). topo_parent (TopologyItem_simpleName t) = ident)"
  using assms
  by (cases "IsA obj")
     (auto simp: object2mesh_def Let_def topo_parent_def Face_build_def CurveEdge_build_def
       split: sum.splits if_splits)

lemma object2mesh_all_parent:
  "object2mesh_all (Builder k ls) obj ident levels = Inr b
    \<Longrightarrow> \<forall>l \<in> set ls. \<forall>t \<in> set (Level_topology l). topo_parent (TopologyItem_simpleName t) = ident
    \<Longrightarrow> \<exists>ls'. b = Builder k ls'
          \<and> (\<forall>l \<in> set ls'. \<forall>t \<in> set (Level_topology l). topo_parent (TopologyItem_simpleName t) = ident)"
proof (induction levels arbitrary: ls)
  case Nil
  then show ?case by auto
next
  case (Cons pd levels)
  obtain p d where pd: "pd = (p, d)" by (cases pd)
  from Cons.prems(1) obtain b1 where
    b1: "object2mesh (Builder k ls) obj ident p d = Inr b1"
    and rest: "object2mesh_all b1 obj ident levels = Inr b"
    by (auto simp: pd split: sum.splits)
  from object2mesh_level_parent [OF b1] obtain l where
    l: "b1 = Builder k (ls @ [l])"
      "\<forall>t \<in> set (Level_topology l). topo_parent (TopologyItem_simpleName t) = ident"
    by blast
  with Cons.prems(2) have
    "\<forall>l \<in> set (ls @ [l]). \<forall>t \<in> set (Level_topology l). topo_parent (TopologyItem_simpleName t) = ident"
    by simp
  from Cons.IH [OF rest [unfolded l(1)] this] show ?case .
qed

lemma meshes_parent:
  assumes "meshes obj ident levels = Inr v"
  shows "\<forall>t \<in> set (traverse_TopologyItems v). topo_parent (TopologyItem_simpleName t) = ident"
proof -
  from assms obtain k b where
    b: "object2mesh_all (Builder k []) obj ident levels = Inr b"
    and v: "v = (build b)\<lparr> simpleName := ident \<rparr>"
    by (auto simp: meshes_def split: sum.splits c3d_SpaceType.splits)
  from object2mesh_all_parent [OF b] obtain ls' where
    "b = Builder k ls'"
    "\<forall>l \<in> set ls'. \<forall>t \<in> set (Level_topology l). topo_parent (TopologyItem_simpleName t) = ident"
    by auto
  then show ?thesis
    by (auto simp: v traverse_TopologyItems_def)
qed

lemma addItem_isolated:
  assumes wf: "heap_wf s" and a: "addItem obj s = (r, s')" and below: "counter s < 2 ^ 53"
  shows "heap_wf s'" and "store_frame s s'"
proof -
  have inc: "js_increment (counter s) = counter s + 1"
    using below by (simp add: js_increment_def)
  have ptr: "geometryModel s < nextAddr s" "topologyModel s < nextAddr s" "hidden s < nextAddr s"
    using wf by (simp_all add: heap_wf_def)
  have "heap_wf s' \<and> store_frame s s'"
  proof (cases "meshes obj (counter s) precision_distance")
    case (Inl e)
    with a have s': "s' = s\<lparr> counter := js_increment (counter s) \<rparr>"
      by (simp add: addItem_def Let_def)
    have "heap_wf s'"
      unfolding heap_wf_def
    proof (intro conjI allI ballI)
      fix a e assume "e \<in> set (TopologyMaps s' a)"
      then have "e \<in> set (TopologyMaps s a)" by (simp add: s')
      from heap_wf_entry [OF wf this]
      show "topo_parent (fst e) < counter s'" "td_view (snd e) < nextAddr s'"
        by (simp_all add: s' inc)
    qed (simp_all add: s' ptr)
    moreover have "store_frame s s'"
      by (simp add: store_frame_def s')
    ultimately show ?thesis ..
  next
    case (Inr v)
    define sa where "sa = s\<lparr> counter := js_increment (counter s),
      ItemMaps := (ItemMaps s)(geometryModel s :=
         AList.update (counter s) (v, obj) (the_geometryModel s)) \<rparr>"
    have walk: "walk_inv (counter s) (nextAddr s) sa"
      unfolding walk_inv_def
    proof (intro conjI allI ballI impI)
      fix a e assume "e \<in> set (TopologyMaps sa a)"
      then have e: "e \<in> set (TopologyMaps s a)" by (simp add: sa_def)
      from heap_wf_entry [OF wf e]
      show "topo_parent (fst e) < counter sa" "td_view (snd e) < nextAddr sa"
        by (simp_all add: sa_def inc)
      assume "a = topologyModel sa \<and> topo_parent (fst e) = counter s"
      with heap_wf_entry(1) [OF wf e] show "nextAddr s \<le> td_view (snd e)" by simp
    qed (simp_all add: sa_def ptr inc)
    have wf_of_walk: "heap_wf s2 \<and> store_frame s s2"
      if w: "walk_inv (counter s) (nextAddr s) s2"
        and same: "ItemMaps s2 = ItemMaps sa" "NameSets s2 = NameSets sa"
          "geometryModel s2 = geometryModel sa" "hidden s2 = hidden sa"
          "topologyModel s2 = topologyModel sa"
        and views: "\<forall>a. a < nextAddr s \<longrightarrow> ViewSets s2 a = ViewSets sa a"
        and topo: "\<forall>a. a \<noteq> topologyModel sa \<longrightarrow> TopologyMaps s2 a = TopologyMaps sa a"
      for s2
    proof
      have n: "nextAddr s \<le> nextAddr s2"
        using w by (simp add: walk_inv_def)
      show "heap_wf s2"
        unfolding heap_wf_def
      proof (intro conjI allI ballI)
        fix a e assume "e \<in> set (TopologyMaps s2 a)"
        from walk_inv_entry(1,2) [OF w this]
        show "topo_parent (fst e) < counter s2" "td_view (snd e) < nextAddr s2" .
      qed (use n ptr same in \<open>simp_all add: sa_def\<close>)
      show "store_frame s s2"
        using n views topo by (simp add: store_frame_def same sa_def)
    qed
    obtain r2 s2 where t: "addTopologyItems obj (traverse_TopologyItems v) sa = (r2, s2)"
      by (cases "addTopologyItems obj (traverse_TopologyItems v) sa")
    note f = addTopologyItems_frame [OF t]
    note w = addTopologyItems_walk [OF walk meshes_parent [OF Inr] t]
    from a Inr t have "s' = sa \<or> s' = s2"
      by (cases r2) (auto simp: addItem_def Let_def sa_def the_geometryModel_def split: if_splits)
    then show ?thesis
    proof
      assume "s' = sa"
      with wf_of_walk [OF walk] show ?thesis by simp
    next
      assume "s' = s2"
      with wf_of_walk [of s2] w f show ?thesis by simp
    qed
  qed
  then show "heap_wf s'" and "store_frame s s'" by simp_all
qed

lemma distinct_map_nth:
  assumes "distinct (map f xs)" and "i < length xs" and "j < length xs" and "i \<noteq> j"
  shows "f (xs ! i) \<noteq> f (xs ! j)"
  using nth_eq_iff_index_eq [OF assms(1), of i j] assms(2-4) by simp

text \<open>What one operation other than restoring does, seen from a memento.\<close>

lemma heap_wf_cong:
  assumes "heap_wf s" and "TopologyMaps s' = TopologyMaps s" and "counter s' = counter s"
    and "nextAddr s \<le> nextAddr s'" and "geometryModel s' = geometryModel s"
    and "topologyModel s' = topologyModel s" and "hidden s' = hidden s"
  shows "heap_wf s'"
  unfolding heap_wf_def
proof (intro conjI allI ballI)
  fix a e assume "e \<in> set (TopologyMaps s' a)"
  with assms(2) have "e \<in> set (TopologyMaps s a)" by simp
  from heap_wf_entry [OF assms(1) this] assms(3,4)
  show "topo_parent (fst e) < counter s'" "td_view (snd e) < nextAddr s'" by simp_all
qed (use assms in \<open>simp_all add: heap_wf_def\<close>)

lemma removeItem_isolated:
  assumes wf: "heap_wf s"
  shows "heap_wf (snd (removeItem v s))" and "store_frame s (snd (removeItem v s))"
proof -
  let ?s' = "snd (removeItem v s)"
  have fields: "counter ?s' = counter s" "nextAddr ?s' = nextAddr s"
    "geometryModel ?s' = geometryModel s" "topologyModel ?s' = topologyModel s"
    "hidden ?s' = hidden s" "ViewSets ?s' = ViewSets s"
    by (simp_all add: removeItem_def Let_def)
  have sub: "set (TopologyMaps ?s' a) \<subseteq> set (TopologyMaps s a)" for a
    using set_fold_delete_subset [of TopologyItem_simpleName "traverse_TopologyItems v"
        "TopologyMaps s (topologyModel s)"]
    by (simp add: removeItem_def Let_def removeTopologyItems_def the_topologyModel_def)
  show "heap_wf ?s'"
    unfolding heap_wf_def fields
  proof (intro conjI allI ballI)
    fix a e assume "e \<in> set (TopologyMaps ?s' a)"
    with sub have "e \<in> set (TopologyMaps s a)" by blast
    from heap_wf_entry [OF wf this]
    show "topo_parent (fst e) < counter s" "td_view (snd e) < nextAddr s" .
  qed (use wf in \<open>simp_all add: heap_wf_def\<close>)
  show "store_frame s ?s'"
    by (simp add: store_frame_def removeItem_def Let_def removeTopologyItems_def)
qed

lemma hide_isolated:
  assumes wf: "heap_wf s"
  shows "heap_wf (snd (hide v s))" and "store_frame s (snd (hide v s))"
    and "heap_wf (snd (unhide v s))" and "store_frame s (snd (unhide v s))"
  using wf
  by (auto intro: heap_wf_cong simp: store_frame_def hide_def unhide_def)

lemma saveToMemento_isolated:
  assumes wf: "heap_wf s"
  shows "heap_wf (snd (saveToMemento s))" and "store_frame s (snd (saveToMemento s))"
proof -
  let ?s' = "snd (saveToMemento s)"
  have fields: "counter ?s' = counter s" "nextAddr ?s' = nextAddr s + 3"
    "geometryModel ?s' = geometryModel s" "topologyModel ?s' = topologyModel s"
    "hidden ?s' = hidden s" "ViewSets ?s' = ViewSets s"
    by (simp_all add: saveToMemento_def Let_def)
  have sub: "set (TopologyMaps ?s' a) \<subseteq> set (TopologyMaps s a) \<union> set (TopologyMaps s (topologyModel s))" for a
    by (simp add: saveToMemento_def Let_def the_topologyModel_def)
  show "heap_wf ?s'"
    unfolding heap_wf_def fields
  proof (intro conjI allI ballI)
    fix a e assume "e \<in> set (TopologyMaps ?s' a)"
    with sub [of a] consider "e \<in> set (TopologyMaps s a)" | "e \<in> set (TopologyMaps s (topologyModel s))"
      by blast
    then have "topo_parent (fst e) < counter s \<and> td_view (snd e) < nextAddr s"
      by cases (use heap_wf_entry [OF wf] in blast)+
    then show "topo_parent (fst e) < counter s" "td_view (snd e) < nextAddr s + 3" by simp_all
  qed (use wf in \<open>simp_all add: heap_wf_def\<close>)
  show "store_frame s ?s'"
    by (simp add: store_frame_def saveToMemento_def Let_def)
qed

lemma store_frame_refl_temporary:
  "store_frame s (s\<lparr> temporaryObjects := ts \<rparr>)"
  by (simp add: store_frame_def)

lemma heap_wf_temporary:
  "heap_wf (s\<lparr> temporaryObjects := ts \<rparr>) = heap_wf s"
  by (simp add: heap_wf_def)

lemma store_frame_pointers:
  "store_frame (s\<lparr> temporaryObjects := ts \<rparr>) s' = store_frame s s'"
  by (simp add: store_frame_def)

lemma step_isolated:
  assumes wf: "session_wf c" and room: "calls_addItem x \<Longrightarrow> counter (db c) < 2 ^ 53"
  shows "session_wf (step x c)
     \<and> (n < length (mementos c) \<and> detached (db c) (mementos c ! n) \<and> x \<noteq> RestoreFromMemento n
        \<longrightarrow> n < length (mementos (step x c))
          \<and> mementos (step x c) ! n = mementos c ! n
          \<and> detached (db (step x c)) (mementos c ! n)
          \<and> memento_contents (db (step x c)) (mementos c ! n)
              = memento_contents (db c) (mementos c ! n))"
    (is "?W \<and> (?P \<longrightarrow> ?Q)")
proof -
  let ?m = "mementos c ! n"
  have hwf: "heap_wf (db c)" and mwf: "\<And>m. m \<in> set (mementos c) \<Longrightarrow> memento_wf (db c) m"
    and dist: "distinct (map memento_geometryModel (mementos c))"
      "distinct (map memento_topologyModel (mementos c))"
      "distinct (map memento_hidden (mementos c))"
    using wf by (simp_all add: session_wf_def)
  have m: "memento_wf (db c) ?m" if "n < length (mementos c)"
    using that by (simp add: mwf)
  text \<open>An operation that keeps the store's pointers and the list of mementos.\<close>
  have heap_step: ?thesis
    if s': "heap_wf s'" "store_frame (db c) s'"
      and ptr: "geometryModel s' = geometryModel (db c)" "topologyModel s' = topologyModel (db c)"
        "hidden s' = hidden (db c)"
      and c': "db (step x c) = s'" "mementos (step x c) = mementos c"
    for s'
  proof (rule conjI)
    have "nextAddr (db c) \<le> nextAddr s'"
      using s'(2) by (simp add: store_frame_def)
    then have "memento_wf s' m'" if "m' \<in> set (mementos c)" for m'
      using mwf [OF that] by (simp add: memento_wf_def)
    with s'(1) dist show ?W
      by (simp add: session_wf_def c')
  next
    show "?P \<longrightarrow> ?Q"
    proof (rule impI)
      assume p: ?P
      then have n: "n < length (mementos c)" and d: "detached (db c) ?m" by simp_all
      have "detached s' ?m"
        using d by (simp add: detached_def ptr)
      moreover have "memento_contents s' ?m = memento_contents (db c) ?m"
        using hwf m [OF n] d s'(2) by (rule memento_contents_frame)
      ultimately show ?Q
        using n by (simp add: c')
    qed
  qed
  have add_step: ?thesis
    if x: "step x c = record_addItem (addItem obj s) c"
      and s: "heap_wf s" "store_frame s = store_frame (db c)"
         "geometryModel s = geometryModel (db c)" "topologyModel s = topologyModel (db c)"
         "hidden s = hidden (db c)"
      and below: "counter s < 2 ^ 53"
    for obj s
  proof -
    obtain r s' where a: "addItem obj s = (r, s')"
      by (cases "addItem obj s")
    note iso = addItem_isolated [OF s(1) a below]
    have f: "NameSets s' = NameSets s" "geometryModel s' = geometryModel s"
      "hidden s' = hidden s" "nextAddr s \<le> nextAddr s'"
      using addItem_frame [OF a] by simp_all
    have t: "topologyModel s' = topologyModel s"
    proof (cases "meshes obj (counter s) precision_distance")
      case (Inl e)
      with a show ?thesis by (auto simp: addItem_def Let_def)
    next
      case (Inr v)
      obtain r2 s2 where t2: "addTopologyItems obj (traverse_TopologyItems v)
          (s\<lparr> counter := js_increment (counter s), ItemMaps := (ItemMaps s)(geometryModel s :=
             AList.update (counter s) (v, obj) (the_geometryModel s)) \<rparr>) = (r2, s2)"
        by (cases "addTopologyItems obj (traverse_TopologyItems v)
          (s\<lparr> counter := js_increment (counter s), ItemMaps := (ItemMaps s)(geometryModel s :=
             AList.update (counter s) (v, obj) (the_geometryModel s)) \<rparr>)")
      from addTopologyItems_frame [OF t2] a Inr t2 show ?thesis
        by (cases r2) (auto simp: addItem_def Let_def the_geometryModel_def split: if_splits)
    qed
    show ?thesis
    proof (rule heap_step)
      show "heap_wf s'" by (rule iso(1))
      show "store_frame (db c) s'" using iso(2) s(2) by simp
      show "geometryModel s' = geometryModel (db c)" "topologyModel s' = topologyModel (db c)"
        "hidden s' = hidden (db c)"
        using f t s by simp_all
      show "db (step x c) = s'" "mementos (step x c) = mementos c"
        by (auto simp: x a record_addItem_def split: sum.splits)
    qed
  qed
  show ?thesis
  proof (cases x)
    case (AddItem obj)
    show ?thesis
      by (rule add_step [of obj "db c"]) (use room in \<open>simp_all add: AddItem hwf\<close>)
  next
    case (AddTemporaryItem obj)
    show ?thesis
      by (rule heap_step [of "db (step x c)"])
         (auto simp: AddTemporaryItem addTemporaryItem_def heap_wf_temporary hwf
           store_frame_refl_temporary store_frame_def split: sum.splits)
  next
    case (Cancel k)
    show ?thesis
      by (rule heap_step [of "db (step x c)"])
         (auto simp: Cancel cancel_def heap_wf_temporary hwf store_frame_def)
  next
    case (Commit k)
    show ?thesis
    proof (cases "k < length (temporaries c)")
      case True
      show ?thesis
        by (rule add_step [of "tmp_object (temporaries c ! k)"
              "(db c)\<lparr> temporaryObjects := remove1 (tmp_mesh (temporaries c ! k)) (temporaryObjects (db c)) \<rparr>"])
           (use room in \<open>simp_all add: Commit True commit_def heap_wf_temporary hwf
             store_frame_pointers fun_eq_iff\<close>)
    next
      case False
      show ?thesis
        by (rule heap_step [of "db c"]) (simp_all add: Commit False hwf store_frame_def)
    qed
  next
    case (RemoveItem v)
    show ?thesis
      by (rule heap_step [of "snd (removeItem v (db c))"])
         (simp_all add: RemoveItem removeItem_isolated [OF hwf], simp_all add: removeItem_def Let_def)
  next
    case (Hide v)
    show ?thesis
      by (rule heap_step [of "snd (hide v (db c))"])
         (simp_all add: Hide hide_isolated [OF hwf], simp_all add: hide_def)
  next
    case (Unhide v)
    show ?thesis
      by (rule heap_step [of "snd (unhide v (db c))"])
         (simp_all add: Unhide hide_isolated [OF hwf], simp_all add: unhide_def)
  next
    case SaveToMemento
    let ?s' = "snd (saveToMemento (db c))"
    let ?a = "nextAddr (db c)"
    let ?new = "\<lparr> memento_geometryModel = ?a, memento_topologyModel = ?a + 1, memento_hidden = ?a + 2 \<rparr>"
    have c': "db (step x c) = ?s'" "mementos (step x c) = mementos c @ [?new]"
      by (simp_all add: SaveToMemento saveToMemento_def Let_def)
    note iso = saveToMemento_isolated [OF hwf]
    have nx: "nextAddr ?s' = ?a + 3"
      by (simp add: saveToMemento_def Let_def)
    have old: "memento_geometryModel m' < ?a \<and> memento_topologyModel m' < ?a \<and> memento_hidden m' < ?a"
      if "m' \<in> set (mementos c)" for m'
      using mwf [OF that] by (simp add: memento_wf_def)
    have fresh: "?a \<notin> memento_geometryModel ` set (mementos c)"
      "?a + 1 \<notin> memento_topologyModel ` set (mementos c)"
      "?a + 2 \<notin> memento_hidden ` set (mementos c)"
    proof -
      show "?a \<notin> memento_geometryModel ` set (mementos c)"
      proof
        assume "?a \<in> memento_geometryModel ` set (mementos c)"
        then obtain m' where "m' \<in> set (mementos c)" "memento_geometryModel m' = ?a" by auto
        with old [of m'] show False by simp
      qed
      show "?a + 1 \<notin> memento_topologyModel ` set (mementos c)"
      proof
        assume "?a + 1 \<in> memento_topologyModel ` set (mementos c)"
        then obtain m' where "m' \<in> set (mementos c)" "memento_topologyModel m' = ?a + 1" by auto
        with old [of m'] show False by simp
      qed
      show "?a + 2 \<notin> memento_hidden ` set (mementos c)"
      proof
        assume "?a + 2 \<in> memento_hidden ` set (mementos c)"
        then obtain m' where "m' \<in> set (mementos c)" "memento_hidden m' = ?a + 2" by auto
        with old [of m'] show False by simp
      qed
    qed
    have w: ?W
      unfolding session_wf_def c'
    proof (intro conjI ballI)
      show "heap_wf ?s'" by (rule iso(1))
      fix m' assume "m' \<in> set (mementos c @ [?new])"
      then consider "m' \<in> set (mementos c)" | "m' = ?new" by auto
      then show "memento_wf ?s' m'"
      proof cases
        case 1
        from old [OF 1] show ?thesis by (simp add: memento_wf_def nx)
      next
        case 2
        then show ?thesis by (simp add: memento_wf_def nx)
      qed
    next
      show "distinct (map memento_geometryModel (mementos c @ [?new]))"
        "distinct (map memento_topologyModel (mementos c @ [?new]))"
        "distinct (map memento_hidden (mementos c @ [?new]))"
        using dist fresh by simp_all
    qed
    have ?Q if p: ?P
    proof -
      from p have n: "n < length (mementos c)" and d: "detached (db c) ?m" by simp_all
      have "detached ?s' ?m"
        using d by (simp add: detached_def saveToMemento_def Let_def)
      moreover have "memento_contents ?s' ?m = memento_contents (db c) ?m"
        using hwf m [OF n] d iso(2) by (rule memento_contents_frame)
      ultimately show ?Q
        using n by (simp add: c' nth_append)
    qed
    with w show ?thesis by blast
  next
    case (RestoreFromMemento k)
    show ?thesis
    proof (cases "k < length (mementos c)")
      case False
      show ?thesis
        by (rule heap_step [of "db c"]) (simp_all add: RestoreFromMemento False hwf store_frame_def)
    next
      case True
      let ?k = "mementos c ! k"
      let ?s' = "snd (restoreFromMemento ?k (db c))"
      have c': "db (step x c) = ?s'" "mementos (step x c) = mementos c"
        by (simp_all add: RestoreFromMemento True)
      have fields: "nextAddr ?s' = nextAddr (db c)" "counter ?s' = counter (db c)"
        "TopologyMaps ?s' = TopologyMaps (db c)" "ItemMaps ?s' = ItemMaps (db c)"
        "NameSets ?s' = NameSets (db c)" "ViewSets ?s' = ViewSets (db c)"
        "geometryModel ?s' = memento_geometryModel ?k" "topologyModel ?s' = memento_topologyModel ?k"
        "hidden ?s' = memento_hidden ?k"
        by (simp_all add: restoreFromMemento_def)
      from True have k: "memento_wf (db c) ?k" by (simp add: mwf)
      have "heap_wf ?s'"
        unfolding heap_wf_def fields
      proof (intro conjI allI ballI)
        fix a e assume "e \<in> set (TopologyMaps (db c) a)"
        from heap_wf_entry [OF hwf this]
        show "topo_parent (fst e) < counter (db c)" "td_view (snd e) < nextAddr (db c)" .
      qed (use k in \<open>simp_all add: memento_wf_def\<close>)
      moreover have "memento_wf ?s' m'" if "m' \<in> set (mementos c)" for m'
        using mwf [OF that] by (simp add: memento_wf_def fields)
      ultimately have w: ?W
        using dist by (simp add: session_wf_def c')
      have ?Q if p: ?P
      proof -
        from p RestoreFromMemento have n: "n < length (mementos c)" and kn: "k \<noteq> n" by simp_all
        have "detached ?s' ?m"
          using dist [THEN distinct_map_nth, OF True n kn]
          by (simp add: detached_def fields)
        moreover have "memento_contents ?s' ?m = memento_contents (db c) ?m"
          by (simp add: memento_contents_def topology_contents_def fields)
        ultimately show ?Q
          using n by (simp add: c')
      qed
      with w show ?thesis by blast
    qed
  qed
qed

lemma step_counter:
  "counter (db (step x c)) \<le> counter (db c) + (if calls_addItem x then 1 else 0)"
proof -
  have add: "counter (db (record_addItem (addItem obj s) c)) \<le> counter s + 1" for obj s
  proof -
    obtain r s' where a: "addItem obj s = (r, s')"
      by (cases "addItem obj s")
    from addItem_counter [of obj s] a have "counter s' \<le> counter s + 1"
      by (simp add: js_increment_def split: if_splits)
    with a show ?thesis
      by (cases r) (simp_all add: record_addItem_def)
  qed
  show ?thesis
  proof (cases x)
    case (AddItem obj)
    with add [of obj "db c"] show ?thesis by simp
  next
    case (Commit n)
    with add [of "tmp_object (temporaries c ! n)"
        "(db c)\<lparr> temporaryObjects := remove1 (tmp_mesh (temporaries c ! n)) (temporaryObjects (db c)) \<rparr>"]
    show ?thesis by (simp add: commit_def)
  qed (simp_all add: addTemporaryItem_def cancel_def removeItem_def hide_def unhide_def
      saveToMemento_def restoreFromMemento_def Let_def split: sum.splits)
qed

lemma addItem_budget_step:
  assumes "addItem_budget (x # ops) c"
  shows "addItem_budget ops (step x c)" and "calls_addItem x \<Longrightarrow> counter (db c) < 2 ^ 53"
  using assms step_counter [of x c]
  by (auto simp: addItem_budget_def split: if_splits)

lemma run_counter:
  "counter (db (run ops c)) \<le> counter (db c) + int (length (filter calls_addItem ops))"
proof (induction ops arbitrary: c)
  case Nil
  then show ?case by simp
next
  case (Cons x ops)
  from Cons.IH [of "step x c"] step_counter [of x c] show ?case
    by (simp split: if_splits)
qed

lemma run_session_wf: "session_wf c \<Longrightarrow> addItem_budget ops c \<Longrightarrow> session_wf (run ops c)"
proof (induction ops arbitrary: c)
  case Nil
  then show ?case by simp
next
  case (Cons x ops)
  note b = addItem_budget_step [OF Cons.prems(2)]
  from step_isolated [OF Cons.prems(1) b(2), where n = 0] have "session_wf (step x c)" by simp
  from Cons.IH [OF this b(1)] show ?case by simp
qed

lemma new_session_wf: "session_wf new_session"
  by (simp add: session_wf_def heap_wf_def new_session_def new_GeometryDatabase_def)

lemma run_isolated:
  "session_wf c \<Longrightarrow> n < length (mementos c) \<Longrightarrow> detached (db c) (mementos c ! n)
   \<Longrightarrow> RestoreFromMemento n \<notin> set ops \<Longrightarrow> addItem_budget ops c
   \<Longrightarrow> session_wf (run ops c) \<and> n < length (mementos (run ops c))
     \<and> mementos (run ops c) ! n = mementos c ! n
     \<and> memento_contents (db (run ops c)) (mementos c ! n) = memento_contents (db c) (mementos c ! n)"
proof (induction ops arbitrary: c)
  case Nil
  then show ?case by simp
next
  case (Cons x ops)
  from Cons.prems(4) have x: "x \<noteq> RestoreFromMemento n" and ops: "RestoreFromMemento n \<notin> set ops"
    by auto
  note b = addItem_budget_step [OF Cons.prems(5)]
  from step_isolated [OF Cons.prems(1) b(2), where n = n] Cons.prems(2,3) x
  have s: "session_wf (step x c)" "n < length (mementos (step x c))"
    "mementos (step x c) ! n = mementos c ! n"
    "detached (db (step x c)) (mementos c ! n)"
    "memento_contents (db (step x c)) (mementos c ! n) = memento_contents (db c) (mementos c ! n)"
    by simp_all
  from s(3,4) have d: "detached (db (step x c)) (mementos (step x c) ! n)" by simp
  from Cons.IH [OF s(1,2) d ops b(1)] s show ?case by simp
qed

text \<open>The memento taken in any reachable state keeps its contents for as long as it is not
  itself restored and the counter has room (at most \<open>2^53\<close> calls of \<^verbatim>\<open>addItem\<close> in all).\<close>

lemma snapshot_isolated_until_restored:
  assumes "c = step SaveToMemento (run ops new_session)"
    and "n = length (mementos (run ops new_session))"
    and "RestoreFromMemento n \<notin> set ops'"
    and "int (length (filter calls_addItem (ops @ ops'))) \<le> 2 ^ 53"
  shows "n < length (mementos c)
    \<and> memento_contents (db (run ops' c)) (mementos c ! n) = memento_contents (db c) (mementos c ! n)"
proof -
  let ?c0 = "run ops new_session"
  have c0: "counter (db new_session) = 0"
    by (simp add: new_session_def new_GeometryDatabase_def)
  have b0: "addItem_budget ops new_session"
    using assms(4) by (simp add: addItem_budget_def c0)
  have wf0: "session_wf ?c0"
    using new_session_wf b0 by (rule run_session_wf)
  from step_isolated [OF wf0, where x = SaveToMemento and n = 0] have wf: "session_wf c"
    by (simp add: assms(1))
  have ms: "mementos c = mementos ?c0 @ [\<lparr> memento_geometryModel = nextAddr (db ?c0),
      memento_topologyModel = nextAddr (db ?c0) + 1, memento_hidden = nextAddr (db ?c0) + 2 \<rparr>]"
    and ptr: "geometryModel (db c) = geometryModel (db ?c0)"
      "topologyModel (db c) = topologyModel (db ?c0)" "hidden (db c) = hidden (db ?c0)"
      "counter (db c) = counter (db ?c0)"
    by (simp_all add: assms(1) saveToMemento_def Let_def)
  have n: "n < length (mementos c)"
    by (simp add: ms assms(2))
  from wf0 have "geometryModel (db ?c0) < nextAddr (db ?c0)"
    "topologyModel (db ?c0) < nextAddr (db ?c0)" "hidden (db ?c0) < nextAddr (db ?c0)"
    by (simp_all add: session_wf_def heap_wf_def)
  then have d: "detached (db c) (mementos c ! n)"
    by (simp add: detached_def ms assms(2) ptr)
  have b: "addItem_budget ops' c"
    using assms(4) run_counter [of ops new_session]
    by (simp add: addItem_budget_def ptr c0)
  from run_isolated [OF wf n d assms(3) b] n show ?thesis by simp
qed

text \<open>
  Claim C3: a memento does not alias the live collections: mutating the store after
  \<^verbatim>\<open>saveToMemento\<close> never changes what the memento holds, and mutating the store after
  \<^verbatim>\<open>restoreFromMemento m\<close> never changes what \<open>m\<close> holds. \<^verbatim>\<open>saveToMemento\<close> copies the three
  collections, and the first half holds (\<open>snapshot_isolated_until_restored\<close> above: a
  memento keeps its contents for as long as it is not itself restored, in every run with
  at most \<open>2^53\<close> calls of \<^verbatim>\<open>addItem\<close>). But
  \<^verbatim>\<open>restoreFromMemento\<close> assigns the memento's own collections to the store's fields, so
  from then on the store mutates the memento's collections. On the new store: take a
  memento (it holds three empty collections), restore it, then add a curve or hide an
  item; the memento now holds identity 0 in its item map, or in its hidden set.
\<close>

theorem C3_restored_memento_is_aliased:
  "fst (saveToMemento new_GeometryDatabase) = Inr example_memento
   \<and> memento_contents example_restored example_memento = ([], [], {})
   \<and> map fst (fst (memento_contents
         (snd (addItem (example_item c3d_SpaceInstance) example_restored)) example_memento)) = [0]
   \<and> memento_contents (snd (hide (example_view 0) example_restored)) example_memento
       = ([], [], {0})"
proof -
  have m: "meshes (example_item c3d_SpaceInstance) 0 precision_distance =
     Inr \<lparr> klass = visual_SpaceInstance, simpleName = 0,
           lod = [Curve3D_Level (GetEdges example_mesh) 50, Curve3D_Level (GetEdges example_mesh) 5,
                  Curve3D_Level (GetEdges example_mesh) 0.5] \<rparr>"
    by (simp add: meshes_def precision_distance_def object2mesh_def example_item_def)
  show ?thesis
    by (simp add: example_restored_def example_memento_def saveToMemento_def
        restoreFromMemento_def memento_contents_def topology_contents_def Let_def
        new_GeometryDatabase_def the_geometryModel_def the_topologyModel_def the_hidden_def
        addItem_def m hide_def example_view_def)
qed

section \<open>Failure of the mesh build\<close>

text \<open>The three ways in which the mesh build fails at its first level: the kind is not
  supported, the kernel rejects the tessellation, or a region comes back with a number of
  polygon buffers other than one.\<close>

lemma meshes_failure_causes:
  "IsA obj = c3d_OtherType \<Longrightarrow> meshes obj ident levels = Inl TypeNotYetSupported"
  "IsA obj \<noteq> c3d_OtherType \<Longrightarrow> CreateMesh_async obj p = Inl e
     \<Longrightarrow> meshes obj ident ((p, d) # levels) = Inl e"
  "IsA obj = c3d_PlaneInstance \<Longrightarrow> CreateMesh_async obj p = Inr mesh
     \<Longrightarrow> length (GetBuffers mesh) \<noteq> 1
     \<Longrightarrow> meshes obj ident ((p, d) # levels) = Inl InvalidPrecondition"
  by (cases "IsA obj"; simp add: meshes_def object2mesh_def)+

lemma addItem_failed_state:
  "meshes obj (counter s) precision_distance = Inl e
   \<Longrightarrow> addItem obj s = (Inl e, s\<lparr> counter := js_increment (counter s) \<rparr>)"
  by (simp add: addItem_def Let_def)

lemma example_added_eq:
  "addItem (example_item c3d_Solid) new_GeometryDatabase = (Inr example_solid_view, example_added)"
  using example_solid_added by (simp add: example_added_def prod_eq_iff)

text \<open>
  Claim C9: when the mesh build inside \<^verbatim>\<open>addItem\<close> or \<^verbatim>\<open>addTemporaryItem\<close> fails (the kernel
  rejects the tessellation, the kind is not supported, or a region has a bad number of
  buffers), the error reaches the caller and the store is left as it was: no Item Record
  and no Topology Record is committed for the item. For \<^verbatim>\<open>addItem\<close> every collection on
  the heap, every reference of the store, the transient workspace, \<^verbatim>\<open>visibleObjects\<close> and
  every lookup are as before; the state that is left is the state before with only the
  private identity counter advanced (the identity taken before the build is not given
  back). For \<^verbatim>\<open>addTemporaryItem\<close> the state that is left is the state before.
\<close>

theorem C9_failed_build_commits_nothing:
  "(meshes obj (counter s) precision_distance = Inl e \<longrightarrow>
      fst (addItem obj s) = Inl e
      \<and> ItemMaps (snd (addItem obj s)) = ItemMaps s
      \<and> TopologyMaps (snd (addItem obj s)) = TopologyMaps s
      \<and> NameSets (snd (addItem obj s)) = NameSets s
      \<and> ViewSets (snd (addItem obj s)) = ViewSets s
      \<and> geometryModel (snd (addItem obj s)) = geometryModel s
      \<and> topologyModel (snd (addItem obj s)) = topologyModel s
      \<and> hidden (snd (addItem obj s)) = hidden s
      \<and> temporaryObjects (snd (addItem obj s)) = temporaryObjects s
      \<and> visibleObjects (snd (addItem obj s)) = visibleObjects s
      \<and> (\<forall>ident. lookupItemById ident (snd (addItem obj s)) = lookupItemById ident s)
      \<and> (\<forall>ident. lookupTopologyItemById ident (snd (addItem obj s))
             = lookupTopologyItemById ident s)
      \<and> snd (addItem obj s) = s\<lparr> counter := js_increment (counter s) \<rparr>)
   \<and> (meshes obj (- 1) [(0.005, 1)] = Inl e'
      \<longrightarrow> addTemporaryItem obj s = (Inl e', s))"
  by (simp add: addItem_failed_state addTemporaryItem_def visibleObjects_def lookupItemById_def
      lookupTopologyItemById_def the_geometryModel_def the_topologyModel_def the_hidden_def)

theorem C9_witness:
  "meshes example_failing (counter example_added) precision_distance = Inl KernelFailure
   \<and> fst (addItem example_failing example_added) = Inl KernelFailure
   \<and> lookupItemById 0 (snd (addItem example_failing example_added))
       = Inr (example_solid_view, example_item c3d_Solid)
   \<and> ItemMaps (snd (addItem example_failing example_added)) = ItemMaps example_added
   \<and> TopologyMaps (snd (addItem example_failing example_added)) = TopologyMaps example_added
   \<and> meshes example_failing (- 1) [(0.005, 1)] = Inl KernelFailure
   \<and> addTemporaryItem example_failing example_added = (Inl KernelFailure, example_added)"
proof -
  have a: "meshes example_failing (counter example_added) precision_distance = Inl KernelFailure"
    by (simp add: meshes_def example_failing_def example_item_def precision_distance_def
        object2mesh_def)
  have b: "meshes example_failing (- 1) [(0.005, 1)] = Inl KernelFailure"
    by (simp add: meshes_def example_failing_def example_item_def object2mesh_def)
  have l: "lookupItemById 0 example_added = Inr (example_solid_view, example_item c3d_Solid)"
    using addItem_success(2) [OF example_added_eq] by (simp add: example_solid_view_def)
  from C9_failed_build_commits_nothing [of example_failing example_added KernelFailure KernelFailure]
    a b
  have f: "fst (addItem example_failing example_added) = Inl KernelFailure"
    "ItemMaps (snd (addItem example_failing example_added)) = ItemMaps example_added"
    "TopologyMaps (snd (addItem example_failing example_added)) = TopologyMaps example_added"
    "lookupItemById 0 (snd (addItem example_failing example_added)) = lookupItemById 0 example_added"
    "addTemporaryItem example_failing example_added = (Inl KernelFailure, example_added)"
    by blast+
  from f a b l show ?thesis
    by (simp only: simp_thms)
qed

section \<open>Identities\<close>

lemma record_addItem_identities:
  assumes "identities_inv c" and "counter s = counter (db c)" and "counter (db c) < 2 ^ 53"
  shows "identities_inv (record_addItem (addItem obj s) c)"
proof -
  obtain r s' where a: "addItem obj s = (r, s')"
    by (cases "addItem obj s")
  from addItem_counter [of obj s] a assms(2,3) have n: "counter s' = counter (db c) + 1"
    by (simp add: js_increment_def)
  show ?thesis
  proof (cases r)
    case (Inl e)
    with assms(1) a n show ?thesis
      by (auto simp: record_addItem_def identities_inv_def)
  next
    case (Inr v)
    with a addItem_success(1) [of obj s v s'] assms(2) have "simpleName v = counter (db c)"
      by simp
    with assms(1) a n Inr show ?thesis
      by (auto simp: record_addItem_def identities_inv_def sorted_wrt_append)
  qed
qed

lemma step_identities:
  assumes "identities_inv c" and room: "calls_addItem x \<Longrightarrow> counter (db c) < 2 ^ 53"
  shows "identities_inv (step x c)"
proof (cases x)
  case (AddItem obj)
  with record_addItem_identities [OF assms(1), of "db c" obj] room show ?thesis by simp
next
  case (AddTemporaryItem obj)
  with assms(1) show ?thesis
    by (auto simp: identities_inv_def addTemporaryItem_def split: sum.splits)
next
  case (Cancel n)
  with assms(1) show ?thesis
    by (auto simp: identities_inv_def cancel_def)
next
  case (Commit n)
  with record_addItem_identities [OF assms(1),
      of "(db c)\<lparr> temporaryObjects := remove1 (tmp_mesh (temporaries c ! n)) (temporaryObjects (db c)) \<rparr>"
         "tmp_object (temporaries c ! n)"] assms(1) room
  show ?thesis by (simp add: commit_def)
next
  case (RemoveItem v)
  with assms(1) show ?thesis
    by (auto simp: identities_inv_def removeItem_def Let_def)
next
  case (Hide v)
  with assms(1) show ?thesis
    by (auto simp: identities_inv_def hide_def)
next
  case (Unhide v)
  with assms(1) show ?thesis
    by (auto simp: identities_inv_def unhide_def)
next
  case SaveToMemento
  with assms(1) show ?thesis
    by (auto simp: identities_inv_def saveToMemento_def Let_def)
next
  case (RestoreFromMemento n)
  with assms(1) show ?thesis
    by (auto simp: identities_inv_def restoreFromMemento_def)
qed

lemma run_identities:
  "identities_inv c \<Longrightarrow> addItem_budget ops c \<Longrightarrow> identities_inv (run ops c)"
proof (induction ops arbitrary: c)
  case Nil
  then show ?case by simp
next
  case (Cons x ops)
  note b = addItem_budget_step [OF Cons.prems(2)]
  from Cons.IH [OF step_identities [OF Cons.prems(1) b(2)] b(1)] show ?case by simp
qed

lemma new_session_identities: "identities_inv new_session"
  by (simp add: identities_inv_def new_session_def new_GeometryDatabase_def)

text \<open>A run of \<open>n\<close> successful calls of \<^verbatim>\<open>addItem\<close> with a curve: each call is given the value
  of the counter, and the counter goes up by one for as long as it is below \<open>2^53\<close>.\<close>

lemma run_append: "run (xs @ ys) c = run ys (run xs c)"
  by (induction xs arbitrary: c) simp_all

lemma step_AddItem_curve:
  "identities (step (AddItem (example_item c3d_SpaceInstance)) c) = identities c @ [counter (db c)]"
  "counter (db (step (AddItem (example_item c3d_SpaceInstance)) c)) = js_increment (counter (db c))"
proof -
  let ?obj = "example_item c3d_SpaceInstance"
  obtain v where m: "meshes ?obj (counter (db c)) precision_distance = Inr v"
    by (simp add: meshes_def precision_distance_def object2mesh_def example_item_def)
  obtain r s' where a: "addItem ?obj (db c) = (r, s')"
    by (cases "addItem ?obj (db c)")
  with addItem_returns_view [OF m] have r: "r = Inr v" by simp
  from addItem_success(1) [OF a [unfolded r]] have n: "simpleName v = counter (db c)" .
  from addItem_counter [of ?obj "db c"] a have k: "counter s' = js_increment (counter (db c))"
    by simp
  show "identities (step (AddItem ?obj) c) = identities c @ [counter (db c)]"
    by (simp add: a r n record_addItem_def)
  show "counter (db (step (AddItem ?obj) c)) = js_increment (counter (db c))"
    by (simp add: a r k record_addItem_def)
qed

lemma run_AddItem_curve:
  "counter (db c) + int n \<le> 2 ^ 53
   \<Longrightarrow> identities (run (replicate n (AddItem (example_item c3d_SpaceInstance))) c)
         = identities c @ map (\<lambda>i. counter (db c) + int i) [0..<n]
     \<and> counter (db (run (replicate n (AddItem (example_item c3d_SpaceInstance))) c))
         = counter (db c) + int n"
proof (induction n arbitrary: c)
  case 0
  then show ?case by simp
next
  case (Suc n)
  let ?c1 = "step (AddItem (example_item c3d_SpaceInstance)) c"
  from Suc.prems have below: "counter (db c) < 2 ^ 53" by simp
  then have k: "counter (db ?c1) = counter (db c) + 1"
    by (simp add: step_AddItem_curve(2) js_increment_def del: step.simps)
  with Suc.prems have "counter (db ?c1) + int n \<le> 2 ^ 53" by simp
  from Suc.IH [OF this] have
    ids: "identities (run (replicate n (AddItem (example_item c3d_SpaceInstance))) ?c1)
         = identities ?c1 @ map (\<lambda>i. counter (db ?c1) + int i) [0..<n]"
    and cnt: "counter (db (run (replicate n (AddItem (example_item c3d_SpaceInstance))) ?c1))
         = counter (db ?c1) + int n"
    by simp_all
  have "map (\<lambda>i. counter (db c) + int i) [0..<Suc n]
      = counter (db c) # map (\<lambda>i. counter (db c) + 1 + int i) [0..<n]"
    by (simp add: upt_conv_Cons map_Suc_upt [symmetric] del: upt_Suc)
  with ids cnt k show ?case
    by (simp add: step_AddItem_curve(1) del: upt_Suc step.simps)
qed

text \<open>
  Claim C7: in every sequence of successful \<^verbatim>\<open>addItem\<close> calls on one store (those issued
  through \<^verbatim>\<open>commit\<close> included) each call is given a fresh, strictly increasing identity, and
  no identity is ever used twice. The identity is the value of the counter, a JavaScript
  number: once it has reached \<open>2^53\<close> the increment no longer changes it. After \<open>2^53\<close>
  successful calls (identities 0 to \<open>2^53 - 1\<close>) the next two calls are both given \<open>2^53\<close>.
\<close>

theorem C7_counterexample:
  "drop (2 ^ 53) (identities (run (replicate (2 ^ 53 + 2)
       (AddItem (example_item c3d_SpaceInstance))) new_session)) = [2 ^ 53, 2 ^ 53]
   \<and> \<not> distinct (identities (run (replicate (2 ^ 53 + 2)
       (AddItem (example_item c3d_SpaceInstance))) new_session))"
proof -
  let ?add = "AddItem (example_item c3d_SpaceInstance)"
  let ?c = "run (replicate (2 ^ 53) ?add) new_session"
  have c0: "counter (db new_session) = 0" "identities new_session = []"
    by (simp_all add: new_session_def new_GeometryDatabase_def)
  have pre: "counter (db new_session) + int (2 ^ 53) \<le> 2 ^ 53"
    by (simp add: c0)
  have "(\<lambda>i. counter (db new_session) + int i) = int"
    by (simp add: c0 fun_eq_iff)
  note r = run_AddItem_curve [OF pre, unfolded this c0 append_Nil]
  have cnt: "counter (db ?c) = 2 ^ 53"
    using r by simp
  have ids: "identities ?c = map int [0..<2 ^ 53]"
    using r by simp
  have two: "replicate 2 ?add = [?add, ?add]"
    by (simp add: numeral_2_eq_2)
  have split: "replicate (2 ^ 53 + 2) ?add = replicate (2 ^ 53) ?add @ [?add, ?add]"
    by (simp only: replicate_add two)
  have s2: "identities (step ?add (step ?add ?c)) = map int [0..<2 ^ 53] @ [2 ^ 53, 2 ^ 53]"
    by (simp only: step_AddItem_curve ids cnt) (simp add: js_increment_def)
  have "run (replicate (2 ^ 53 + 2) ?add) new_session = step ?add (step ?add ?c)"
    by (simp only: split run_append run.simps)
  then have last: "identities (run (replicate (2 ^ 53 + 2) ?add) new_session)
      = map int [0..<2 ^ 53] @ [2 ^ 53, 2 ^ 53]"
    by (simp only: s2)
  have len: "length (map int [0..<2 ^ 53]) = 2 ^ 53"
    by simp
  show ?thesis
  proof
    show "drop (2 ^ 53) (identities (run (replicate (2 ^ 53 + 2) ?add) new_session))
        = [2 ^ 53, 2 ^ 53]"
      by (simp only: last) (simp only: drop_append len drop_all order_refl diff_self_eq_0
          drop_0 append_Nil)
    show "\<not> distinct (identities (run (replicate (2 ^ 53 + 2) ?add) new_session))"
      by (simp only: last distinct_append) simp
  qed
qed

text \<open>
  Claim C7 as amended: in every sequence of operations on one store with at most \<open>2^53\<close>
  calls of \<^verbatim>\<open>addItem\<close> (direct or through \<^verbatim>\<open>commit\<close>), the successful \<^verbatim>\<open>addItem\<close> calls are given
  strictly increasing identities that are not negative; so no two items share an identity,
  and an identity is not used again after its item was removed or after a memento from
  before was restored.
\<close>

theorem C7_identities_strictly_increasing:
  assumes "length (filter calls_addItem ops) \<le> 2 ^ 53"
  shows "sorted_wrt (<) (identities (run ops new_session))
   \<and> distinct (identities (run ops new_session))
   \<and> (\<forall>i \<in> set (identities (run ops new_session)). 0 \<le> i)"
proof -
  from assms have "int (length (filter calls_addItem ops)) \<le> int (2 ^ 53)"
    by (simp only: of_nat_le_iff)
  then have "addItem_budget ops new_session"
    by (simp add: addItem_budget_def new_session_def new_GeometryDatabase_def)
  with new_session_identities have inv: "identities_inv (run ops new_session)"
    by (rule run_identities)
  then have s: "sorted_wrt (<) (identities (run ops new_session))"
    by (simp add: identities_inv_def)
  then have "distinct (identities (run ops new_session))"
    by (simp add: strict_sorted_iff)
  with inv s show ?thesis
    by (simp add: identities_inv_def)
qed

theorem C7_witness:
  "length (filter calls_addItem [AddItem (example_item c3d_SpaceInstance), AddItem example_failing,
          RemoveItem example_curve_view, SaveToMemento,
          AddTemporaryItem (example_item c3d_PlaneInstance),
          RestoreFromMemento 0, Commit 0]) = 3
   \<and> identities (run [AddItem (example_item c3d_SpaceInstance), AddItem example_failing,
          RemoveItem example_curve_view, SaveToMemento,
          AddTemporaryItem (example_item c3d_PlaneInstance),
          RestoreFromMemento 0, Commit 0] new_session) = [0, 2]
   \<and> sorted_wrt (<) (identities (run [AddItem (example_item c3d_SpaceInstance),
          AddItem example_failing, RemoveItem example_curve_view, SaveToMemento,
          AddTemporaryItem (example_item c3d_PlaneInstance),
          RestoreFromMemento 0, Commit 0] new_session))
   \<and> distinct (identities (run [AddItem (example_item c3d_SpaceInstance),
          AddItem example_failing, RemoveItem example_curve_view, SaveToMemento,
          AddTemporaryItem (example_item c3d_PlaneInstance),
          RestoreFromMemento 0, Commit 0] new_session))"
proof -
  have n: "length (filter calls_addItem [AddItem (example_item c3d_SpaceInstance),
          AddItem example_failing, RemoveItem example_curve_view, SaveToMemento,
          AddTemporaryItem (example_item c3d_PlaneInstance),
          RestoreFromMemento 0, Commit 0]) = 3"
    by simp
  have "identities (run [AddItem (example_item c3d_SpaceInstance), AddItem example_failing,
          RemoveItem example_curve_view, SaveToMemento,
          AddTemporaryItem (example_item c3d_PlaneInstance),
          RestoreFromMemento 0, Commit 0] new_session) = [0, 2]"
    by (simp add: new_session_def new_GeometryDatabase_def record_addItem_def addItem_def
        addTemporaryItem_def commit_def removeItem_def saveToMemento_def restoreFromMemento_def
        removeTopologyItems_def Let_def meshes_def object2mesh_def precision_distance_def
        example_item_def example_failing_def example_curve_view_def example_mesh_def
        the_geometryModel_def the_topologyModel_def the_hidden_def traverse_TopologyItems_def
        js_increment_def)
  with C7_identities_strictly_increasing [of "[AddItem (example_item c3d_SpaceInstance), AddItem example_failing,
          RemoveItem example_curve_view, SaveToMemento,
          AddTemporaryItem (example_item c3d_PlaneInstance),
          RestoreFromMemento 0, Commit 0]"] n
  show ?thesis by simp
qed

section \<open>The Hidden Set\<close>

lemma hidden_inv_store:
  "hidden_inv c \<Longrightarrow> the_hidden (db c) \<subseteq> item_keys (db c)"
  by (simp add: hidden_inv_def collection_pairs_def the_hidden_def item_keys_def
      the_geometryModel_def)

lemma hidden_inv_heap_step:
  assumes inv: "hidden_inv c"
    and ptr: "geometryModel s' = geometryModel (db c)" "hidden s' = hidden (db c)"
    and nxt: "nextAddr (db c) \<le> nextAddr s'"
    and ms: "mementos c' = mementos c" and db: "db c' = s'"
    and content: "\<And>p. p \<in> set (collection_pairs c)
        \<Longrightarrow> NameSets s' (snd p) \<subseteq> fst ` set (ItemMaps s' (fst p))"
  shows "hidden_inv c'"
proof -
  have pairs: "collection_pairs c' = collection_pairs c"
    by (simp add: collection_pairs_def ptr ms db)
  show ?thesis
    unfolding hidden_inv_def pairs db
  proof (intro conjI ballI)
    fix p assume p: "p \<in> set (collection_pairs c)"
    with inv have "fst p < nextAddr (db c)" "snd p < nextAddr (db c)"
      by (simp_all add: hidden_inv_def)
    with nxt show "fst p < nextAddr s'" "snd p < nextAddr s'" by simp_all
    from content [OF p] show "NameSets s' (snd p) \<subseteq> fst ` set (ItemMaps s' (fst p))" .
  next
    fix p q assume "p \<in> set (collection_pairs c)" "q \<in> set (collection_pairs c)"
    with inv show "(fst p = fst q) = (snd p = snd q)"
      by (simp add: hidden_inv_def)
  qed
qed

lemma hidden_inv_content:
  "hidden_inv c \<Longrightarrow> p \<in> set (collection_pairs c)
   \<Longrightarrow> NameSets (db c) (snd p) \<subseteq> fst ` set (ItemMaps (db c) (fst p))"
  by (simp add: hidden_inv_def)

lemma hidden_inv_linked:
  "hidden_inv c \<Longrightarrow> p \<in> set (collection_pairs c)
   \<Longrightarrow> (fst p = geometryModel (db c)) = (snd p = hidden (db c))"
  by (auto simp: hidden_inv_def collection_pairs_def)

lemma record_addItem_hidden_inv:
  assumes inv: "hidden_inv c"
    and s: "NameSets s = NameSets (db c)" "ItemMaps s = ItemMaps (db c)"
      "geometryModel s = geometryModel (db c)" "hidden s = hidden (db c)"
      "nextAddr s = nextAddr (db c)"
  shows "hidden_inv (record_addItem (addItem obj s) c)"
proof -
  obtain r s' where a: "addItem obj s = (r, s')"
    by (cases "addItem obj s")
  note f = addItem_frame [OF a]
  have c': "mementos (record_addItem (addItem obj s) c) = mementos c"
    "db (record_addItem (addItem obj s) c) = s'"
    by (auto simp: a record_addItem_def split: sum.splits)
  show ?thesis
  proof (rule hidden_inv_heap_step [OF inv _ _ _ c'])
    show "geometryModel s' = geometryModel (db c)" "hidden s' = hidden (db c)"
      "nextAddr (db c) \<le> nextAddr s'"
      using f s by simp_all
    fix p assume "p \<in> set (collection_pairs c)"
    from hidden_inv_content [OF inv this] f(1) f(5) [of "fst p"] s
    show "NameSets s' (snd p) \<subseteq> fst ` set (ItemMaps s' (fst p))"
      by auto
  qed
qed

lemma removeItem_hidden_inv:
  assumes inv: "hidden_inv c"
  shows "hidden_inv (step (RemoveItem v) c)"
proof (rule hidden_inv_heap_step [OF inv])
  let ?s' = "snd (removeItem v (db c))"
  show "geometryModel ?s' = geometryModel (db c)" "hidden ?s' = hidden (db c)"
    "nextAddr (db c) \<le> nextAddr ?s'"
    by (simp_all add: removeItem_def Let_def)
  show "mementos (step (RemoveItem v) c) = mementos c" "db (step (RemoveItem v) c) = ?s'"
    by simp_all
  fix p assume p: "p \<in> set (collection_pairs c)"
  note sub = hidden_inv_content [OF inv p]
  note link = hidden_inv_linked [OF inv p]
  show "NameSets ?s' (snd p) \<subseteq> fst ` set (ItemMaps ?s' (fst p))"
  proof (cases "fst p = geometryModel (db c)")
    case True
    with link have "snd p = hidden (db c)" by simp
    with True sub show ?thesis
      by (auto simp: removeItem_def Let_def the_hidden_def the_geometryModel_def dom_delete)
  next
    case False
    with link have "snd p \<noteq> hidden (db c)" by simp
    with False sub show ?thesis
      by (simp add: removeItem_def Let_def the_hidden_def the_geometryModel_def)
  qed
qed

lemma hide_hidden_inv:
  assumes inv: "hidden_inv c" and present: "simpleName v \<in> item_keys (db c)"
  shows "hidden_inv (step (Hide v) c)"
proof (rule hidden_inv_heap_step [OF inv])
  let ?s' = "snd (hide v (db c))"
  show "geometryModel ?s' = geometryModel (db c)" "hidden ?s' = hidden (db c)"
    "nextAddr (db c) \<le> nextAddr ?s'"
    by (simp_all add: hide_def)
  show "mementos (step (Hide v) c) = mementos c" "db (step (Hide v) c) = ?s'"
    by simp_all
  fix p assume p: "p \<in> set (collection_pairs c)"
  note sub = hidden_inv_content [OF inv p]
  note link = hidden_inv_linked [OF inv p]
  show "NameSets ?s' (snd p) \<subseteq> fst ` set (ItemMaps ?s' (fst p))"
  proof (cases "snd p = hidden (db c)")
    case True
    with link have "fst p = geometryModel (db c)" by simp
    with True sub present show ?thesis
      by (auto simp: hide_def the_hidden_def item_keys_def the_geometryModel_def)
  next
    case False
    with sub show ?thesis
      by (simp add: hide_def)
  qed
qed

lemma unhide_hidden_inv:
  assumes inv: "hidden_inv c"
  shows "hidden_inv (step (Unhide v) c)"
proof (rule hidden_inv_heap_step [OF inv])
  let ?s' = "snd (unhide v (db c))"
  show "geometryModel ?s' = geometryModel (db c)" "hidden ?s' = hidden (db c)"
    "nextAddr (db c) \<le> nextAddr ?s'"
    by (simp_all add: unhide_def)
  show "mementos (step (Unhide v) c) = mementos c" "db (step (Unhide v) c) = ?s'"
    by simp_all
  fix p assume p: "p \<in> set (collection_pairs c)"
  from hidden_inv_content [OF inv p]
  show "NameSets ?s' (snd p) \<subseteq> fst ` set (ItemMaps ?s' (fst p))"
    by (auto simp: unhide_def the_hidden_def)
qed

lemma saveToMemento_hidden_inv:
  assumes inv: "hidden_inv c"
  shows "hidden_inv (step SaveToMemento c)"
proof -
  define a where "a = nextAddr (db c)"
  define s' where "s' = snd (saveToMemento (db c))"
  have c': "db (step SaveToMemento c) = s'"
    "collection_pairs (step SaveToMemento c) = collection_pairs c @ [(a, a + 2)]"
    by (simp_all add: s'_def a_def saveToMemento_def Let_def collection_pairs_def)
  have s': "nextAddr s' = a + 3" "ItemMaps s' = (ItemMaps (db c))(a := the_geometryModel (db c))"
    "NameSets s' = (NameSets (db c))(a + 2 := the_hidden (db c))"
    by (simp_all add: s'_def a_def saveToMemento_def Let_def)
  have old: "fst p < a \<and> snd p < a
      \<and> NameSets (db c) (snd p) \<subseteq> fst ` set (ItemMaps (db c) (fst p))"
    if "p \<in> set (collection_pairs c)" for p
    using inv that by (simp add: hidden_inv_def a_def)
  have link: "(fst p = fst q) = (snd p = snd q)"
    if "p \<in> set (collection_pairs c)" "q \<in> set (collection_pairs c)" for p q
    using inv that by (simp add: hidden_inv_def)
  have store: "the_hidden (db c) \<subseteq> fst ` set (the_geometryModel (db c))"
    using hidden_inv_store [OF inv] by (simp add: item_keys_def)
  show ?thesis
    unfolding hidden_inv_def c'
  proof (intro conjI ballI)
    fix p assume "p \<in> set (collection_pairs c @ [(a, a + 2)])"
    then consider "p \<in> set (collection_pairs c)" | "p = (a, a + 2)" by auto
    then show "fst p < nextAddr s'" "snd p < nextAddr s'"
      "NameSets s' (snd p) \<subseteq> fst ` set (ItemMaps s' (fst p))"
      using old [of p] store by (cases; auto simp: s')+
  next
    fix p q
    assume "p \<in> set (collection_pairs c @ [(a, a + 2)])"
      "q \<in> set (collection_pairs c @ [(a, a + 2)])"
    then show "(fst p = fst q) = (snd p = snd q)"
      using old [of p] old [of q] link [of p q] by auto
  qed
qed

lemma restoreFromMemento_hidden_inv:
  assumes inv: "hidden_inv c"
  shows "hidden_inv (step (RestoreFromMemento n) c)"
proof (cases "n < length (mementos c)")
  case False
  with inv show ?thesis by simp
next
  case True
  let ?c' = "step (RestoreFromMemento n) c"
  have sub: "set (collection_pairs ?c') \<subseteq> set (collection_pairs c)"
    using True by (auto simp: collection_pairs_def restoreFromMemento_def)
  have heap: "nextAddr (db ?c') = nextAddr (db c)" "NameSets (db ?c') = NameSets (db c)"
    "ItemMaps (db ?c') = ItemMaps (db c)"
    using True by (simp_all add: restoreFromMemento_def)
  from inv sub show ?thesis
    unfolding hidden_inv_def heap by blast
qed

lemma step_hidden_inv:
  assumes inv: "hidden_inv c"
    and present: "\<And>v. x = Hide v \<Longrightarrow> simpleName v \<in> item_keys (db c)"
  shows "hidden_inv (step x c)"
proof (cases x)
  case (AddItem obj)
  with record_addItem_hidden_inv [OF inv, of "db c" obj] show ?thesis by simp
next
  case (AddTemporaryItem obj)
  have "hidden_inv (step (AddTemporaryItem obj) c)"
  proof (rule hidden_inv_heap_step [OF inv])
    let ?c' = "step (AddTemporaryItem obj) c"
    show "geometryModel (db ?c') = geometryModel (db c)" "hidden (db ?c') = hidden (db c)"
      "nextAddr (db c) \<le> nextAddr (db ?c')" "mementos ?c' = mementos c" "db ?c' = db ?c'"
      by (simp_all add: addTemporaryItem_def split: sum.splits)
    fix p assume "p \<in> set (collection_pairs c)"
    from hidden_inv_content [OF inv this]
    show "NameSets (db ?c') (snd p) \<subseteq> fst ` set (ItemMaps (db ?c') (fst p))"
      by (simp add: addTemporaryItem_def split: sum.splits)
  qed
  with AddTemporaryItem show ?thesis by simp
next
  case (Cancel n)
  have "hidden_inv (step (Cancel n) c)"
  proof (rule hidden_inv_heap_step [OF inv])
    let ?c' = "step (Cancel n) c"
    show "geometryModel (db ?c') = geometryModel (db c)" "hidden (db ?c') = hidden (db c)"
      "nextAddr (db c) \<le> nextAddr (db ?c')" "mementos ?c' = mementos c" "db ?c' = db ?c'"
      by (simp_all add: cancel_def)
    fix p assume "p \<in> set (collection_pairs c)"
    from hidden_inv_content [OF inv this]
    show "NameSets (db ?c') (snd p) \<subseteq> fst ` set (ItemMaps (db ?c') (fst p))"
      by (simp add: cancel_def)
  qed
  with Cancel show ?thesis by simp
next
  case (Commit n)
  with inv record_addItem_hidden_inv [OF inv,
      of "(db c)\<lparr> temporaryObjects := remove1 (tmp_mesh (temporaries c ! n)) (temporaryObjects (db c)) \<rparr>"
         "tmp_object (temporaries c ! n)"]
  show ?thesis by (simp add: commit_def)
next
  case (RemoveItem v)
  with removeItem_hidden_inv [OF inv] show ?thesis by simp
next
  case (Hide v)
  with hide_hidden_inv [OF inv present] show ?thesis by simp
next
  case (Unhide v)
  with unhide_hidden_inv [OF inv] show ?thesis by simp
next
  case SaveToMemento
  with saveToMemento_hidden_inv [OF inv] show ?thesis by simp
next
  case (RestoreFromMemento n)
  with restoreFromMemento_hidden_inv [OF inv] show ?thesis by simp
qed

lemma run_hidden_inv:
  "hidden_inv c \<Longrightarrow> hides_present ops c \<Longrightarrow> hidden_inv (run ops c)"
proof (induction ops arbitrary: c)
  case Nil
  then show ?case by simp
next
  case (Cons x ops)
  have present: "simpleName v \<in> item_keys (db c)" if "x = Hide v" for v
    using Cons.prems(2) that by simp
  have rest: "hides_present ops (step x c)"
    using Cons.prems(2) by (cases x) simp_all
  from Cons.IH [OF step_hidden_inv [OF Cons.prems(1) present] rest]
  show ?case by simp
qed

lemma new_session_hidden_inv: "hidden_inv new_session"
  by (simp add: hidden_inv_def collection_pairs_def new_session_def new_GeometryDatabase_def)

text \<open>
  Claim C8: in every state reachable by the public operations the Hidden Set is a subset of
  the key set of the Item Record map. \<^verbatim>\<open>hide\<close> adds the identity of the item it is given
  without looking at the Item Record map, so hiding an item that has been removed breaks
  the inclusion: add a curve, remove it, hide it.
\<close>

theorem C8_counterexample:
  "fst (addItem (example_item c3d_SpaceInstance) new_GeometryDatabase) = Inr example_curve_view
   \<and> the_hidden (db (run [AddItem (example_item c3d_SpaceInstance),
          RemoveItem example_curve_view, Hide example_curve_view] new_session)) = {0}
   \<and> item_keys (db (run [AddItem (example_item c3d_SpaceInstance),
          RemoveItem example_curve_view, Hide example_curve_view] new_session)) = {}"
  by (simp add: new_session_def new_GeometryDatabase_def record_addItem_def addItem_def
      removeItem_def hide_def removeTopologyItems_def Let_def meshes_def object2mesh_def
      precision_distance_def example_item_def example_curve_view_def example_mesh_def
      the_geometryModel_def the_topologyModel_def the_hidden_def item_keys_def
      traverse_TopologyItems_def)

text \<open>
  Claim C8 as amended: in every state reachable by the public operations in which \<^verbatim>\<open>hide\<close> is
  only called on items that are in the Item Record map at the time of the call, the Hidden
  Set is a subset of the key set of the Item Record map.
\<close>

theorem C8_hidden_subset_when_hides_present:
  assumes "hides_present ops new_session"
  shows "the_hidden (db (run ops new_session)) \<subseteq> item_keys (db (run ops new_session))"
  using run_hidden_inv [OF new_session_hidden_inv assms] by (rule hidden_inv_store)

theorem C8_witness:
  "hides_present [AddItem (example_item c3d_SpaceInstance), Hide example_curve_view,
       SaveToMemento, RemoveItem example_curve_view, RestoreFromMemento 0] new_session
   \<and> the_hidden (db (run [AddItem (example_item c3d_SpaceInstance), Hide example_curve_view,
       SaveToMemento, RemoveItem example_curve_view, RestoreFromMemento 0] new_session)) = {0}
   \<and> {0} \<subseteq> item_keys (db (run [AddItem (example_item c3d_SpaceInstance),
       Hide example_curve_view, SaveToMemento, RemoveItem example_curve_view,
       RestoreFromMemento 0] new_session))"
proof -
  have h: "hides_present [AddItem (example_item c3d_SpaceInstance), Hide example_curve_view,
       SaveToMemento, RemoveItem example_curve_view, RestoreFromMemento 0] new_session"
    by (simp add: new_session_def new_GeometryDatabase_def record_addItem_def addItem_def
        Let_def meshes_def object2mesh_def precision_distance_def example_item_def
        example_curve_view_def the_geometryModel_def item_keys_def)
  have e: "the_hidden (db (run [AddItem (example_item c3d_SpaceInstance), Hide example_curve_view,
       SaveToMemento, RemoveItem example_curve_view, RestoreFromMemento 0] new_session)) = {0}"
    by (simp add: new_session_def new_GeometryDatabase_def record_addItem_def addItem_def
        removeItem_def hide_def saveToMemento_def restoreFromMemento_def
        removeTopologyItems_def Let_def meshes_def object2mesh_def precision_distance_def
        example_item_def example_curve_view_def example_mesh_def the_geometryModel_def
        the_topologyModel_def the_hidden_def traverse_TopologyItems_def)
  from C8_hidden_subset_when_hides_present [OF h] h e show ?thesis
    by simp
qed

end
